theory Spec2Isabelle
  imports Complex_Main
begin

section \<open>The conversation engine of gpt-turbo\<close>

text \<open>
  A shallow embedding of the class \<open>Conversation\<close> (the library's Conversation.ts).
  Every method becomes a function that takes the state before the call and gives the
  outcome of the call together with the state after it. A JavaScript exception is the
  outcome \<open>Throw\<close>; it carries the state the exception leaves behind, since several
  methods mutate the conversation before they throw.

  Messages are JavaScript objects that the conversation, its callers and a running
  stream share and mutate in place (streamed content, the overwrite in \<open>reprompt\<close>).
  The state therefore holds a store of message objects, and \<open>messages\<close> is the
  array of references into it. A reference is the message's id.

  A call runs from its start to its end without another call or a stream arrival in
  between: the library leaves it to its callers not to overlap calls on one conversation.
  What the two services answer during a call is an argument of the call. Time is not
  modelled: the pause of a dry run and the pace of a stream have no counterpart.
\<close>

subsection \<open>Strings\<close>

text \<open>
  Strings are lists of characters. \<open>trim\<close> is String.prototype.trim on the
  ASCII white space and line terminators; the empty string is the only falsy string.
\<close>

definition isWhitespace :: "char \<Rightarrow> bool" where
  "isWhitespace ch =
     (ch \<in> set [CHR '' '', CHR 0x09, CHR 0x0A, CHR 0x0B, CHR 0x0C, CHR 0x0D])"

definition trim :: "string \<Rightarrow> string" where
  "trim s = rev (dropWhile isWhitespace (rev (dropWhile isWhitespace s)))"

subsection \<open>Messages and configuration\<close>

datatype role = System | User | Assistant

text \<open>
  Modelled from the spec: the class \<open>Message\<close> is not part of the sources at hand. A
  message has an id (here: its reference in the store), a role, a mutable content and the
  model it is priced against. While a stream is read into it, \<open>source\<close> holds the
  deltas that have not arrived yet; \<open>None\<close> means that no stream is being read.
  \<open>stopSubscribed\<close> says whether the conversation's one-shot subscriber
  (handleStreamedResponse) is subscribed to the message's streaming-stop event.
\<close>

record message =
  role :: role
  content :: string
  model :: string
  source :: "string list option"
  stopSubscribed :: bool

datatype moderationPolicy = Off | Lenient | Strict

text \<open>
  Modelled from the spec: the class \<open>ConversationConfig\<close> is not part of the
  sources at hand. The fields are the ones the conversation reads; the getters
  \<open>isModerationEnabled\<close> and \<open>isModerationStrict\<close> follow the policy
  \<open>off | lenient | strict\<close>.
\<close>

record conversationConfig =
  apiKey :: string
  configModel :: string
  configContext :: string
  moderation :: moderationPolicy
  stream :: bool
  dry :: bool

definition isModerationEnabled :: "conversationConfig \<Rightarrow> bool" where
  "isModerationEnabled cfg = (moderation cfg \<noteq> Off)"

definition isModerationStrict :: "conversationConfig \<Rightarrow> bool" where
  "isModerationStrict cfg = (moderation cfg = Strict)"

text \<open>
  \<open>ConversationConfigParameters\<close>: the object literal a caller passes; every
  property is optional.
\<close>

record conversationConfigParameters =
  paramApiKey :: "string option"
  paramModel :: "string option"
  paramContext :: "string option"
  paramModeration :: "moderationPolicy option"
  paramStream :: "bool option"
  paramDry :: "bool option"

subsection \<open>Errors and outcomes\<close>

text \<open>
  The exceptions of the source, under the names of the specification:
  \<open>EmptyUserContent\<close> is \<open>Error("User message content cannot be empty.")\<close>,
  \<open>ModerationViolation\<close> is \<open>ModerationException\<close>,
  \<open>AdjacentRoleViolation\<close> is \<open>MessageRoleException\<close>,
  \<open>MessageNotFound\<close> and \<open>NoPriorUserMessage\<close> are the two errors of
  \<open>reprompt\<close>, \<open>TransportError\<close> is a rejected service call,
  \<open>ConfigValidationError\<close> a rejected configuration, and \<open>TypeError\<close>
  is the runtime's own (a property read on undefined or null).
\<close>

datatype error =
    EmptyUserContent
  | ModerationViolation "string list"
  | AdjacentRoleViolation
  | MessageNotFound
  | NoPriorUserMessage
  | TransportError
  | ConfigValidationError
  | TypeError

datatype notification = MessageAdded nat | MessageRemoved nat

text \<open>
  The fields of the class, then the three parts of the model that the class leaves to
  its surroundings: the store of message objects, the next unused id (the ids are
  UUIDs in the source: unique, never reused), and the log of listener calls, each entry
  being the listener called and the notification passed to it. A listener is a handle;
  what a listener does with the notification is client code and outside the model.
  The conversation's own id and the request options, which are only passed on to the
  services, are left out.
\<close>

record conversation =
  config :: conversationConfig
  messages :: "nat list"
  addMessageListeners :: "nat list"
  removeMessageListeners :: "nat list"
  cumulativeSize :: nat
  cumulativeCost :: real
  objects :: "nat \<Rightarrow> message"
  uuid :: nat
  notified :: "(nat \<times> notification) list"

datatype 'a outcome = Return 'a conversation | Throw error conversation

subsection \<open>The collaborators\<close>

text \<open>
  What the conversation calls and the sources at hand do not define is a parameter:
  the tokenizer behind \<open>getMessageSize\<close>, the price behind \<open>Message.cost\<close>
  (a function of the role, the model and the size), the constructor of
  \<open>ConversationConfig\<close> (defaults and validation) and the projection of a
  configuration back to its parameters (\<open>getConfig\<close>), and the simulated stream of
  a dry run (\<open>createDryChatCompletion\<close>, the deltas it yields for a given text).
\<close>

record env =
  getMessageSize :: "string \<Rightarrow> nat"
  price :: "role \<Rightarrow> string \<Rightarrow> nat \<Rightarrow> real"
  newConversationConfig :: "conversationConfigParameters \<Rightarrow> error + conversationConfig"
  configParameters :: "conversationConfig \<Rightarrow> conversationConfigParameters"
  createDryChatCompletion :: "string \<Rightarrow> string list"

text \<open>
  The answers of the two services are inputs of the call that asks for them. The
  moderation service answers with the flags it raises, or the call fails. The
  completion service answers a batched request with its list of choices (each with an
  optional message content) and a streamed request with a finite stream of deltas;
  \<open>None\<close> is a failed call.
\<close>

datatype moderationReply = ModerationFailed | Flags "string list"

record service =
  completion :: "string option list option"
  deltas :: "string list option"

subsection \<open>Message objects\<close>

text \<open>
  Modelled from the spec: \<open>new Message(role, content, model)\<close> gives a new object
  under a fresh id, with the content trimmed.
\<close>

definition newMessage :: "role \<Rightarrow> string \<Rightarrow> string \<Rightarrow> conversation \<Rightarrow> nat \<times> conversation" where
  "newMessage r txt mdl c =
     (uuid c,
      c\<lparr>objects := (objects c)(uuid c :=
            \<lparr>role = r, content = trim txt, model = mdl, source = None,
             stopSubscribed = False\<rparr>),
        uuid := Suc (uuid c)\<rparr>)"

definition setContent :: "conversation \<Rightarrow> nat \<Rightarrow> string \<Rightarrow> conversation" where
  "setContent c m txt = c\<lparr>objects := (objects c)(m := (objects c m)\<lparr>content := txt\<rparr>)\<rparr>"

text \<open>Modelled from the spec: the getters \<open>Message.size\<close> and \<open>Message.cost\<close>.\<close>

definition messageSize :: "env \<Rightarrow> message \<Rightarrow> nat" where
  "messageSize E m = getMessageSize E (content m)"

definition messageCost :: "env \<Rightarrow> message \<Rightarrow> real" where
  "messageCost E m = price E (role m) (model m) (messageSize E m)"

subsection \<open>Listeners\<close>

definition notifyMessageAdded :: "conversation \<Rightarrow> nat \<Rightarrow> conversation" where
  "notifyMessageAdded c m =
     c\<lparr>notified := notified c @ map (\<lambda>l. (l, MessageAdded m)) (addMessageListeners c)\<rparr>"

definition notifyMessageRemoved :: "conversation \<Rightarrow> nat \<Rightarrow> conversation" where
  "notifyMessageRemoved c m =
     c\<lparr>notified := notified c @ map (\<lambda>l. (l, MessageRemoved m)) (removeMessageListeners c)\<rparr>"

definition offMessageAdded :: "conversation \<Rightarrow> nat \<Rightarrow> conversation" where
  "offMessageAdded c l = c\<lparr>addMessageListeners := filter (\<lambda>k. k \<noteq> l) (addMessageListeners c)\<rparr>"

definition onMessageAdded :: "conversation \<Rightarrow> nat \<Rightarrow> conversation" where
  "onMessageAdded c l = c\<lparr>addMessageListeners := addMessageListeners c @ [l]\<rparr>"

definition offMessageRemoved :: "conversation \<Rightarrow> nat \<Rightarrow> conversation" where
  "offMessageRemoved c l =
     c\<lparr>removeMessageListeners := filter (\<lambda>k. k \<noteq> l) (removeMessageListeners c)\<rparr>"

definition onMessageRemoved :: "conversation \<Rightarrow> nat \<Rightarrow> conversation" where
  "onMessageRemoved c l = c\<lparr>removeMessageListeners := removeMessageListeners c @ [l]\<rparr>"

subsection \<open>Message admission\<close>

text \<open>
  \<open>this.messages[0]?.role === "system"\<close> and
  \<open>this.messages[this.messages.length - 1]?.role\<close>: an empty array has neither.
\<close>

definition firstIsSystem :: "conversation \<Rightarrow> bool" where
  "firstIsSystem c =
     (case messages c of [] \<Rightarrow> False | m # _ \<Rightarrow> role (objects c m) = System)"

definition lastRole :: "conversation \<Rightarrow> role option" where
  "lastRole c =
     (if messages c = [] then None else Some (role (objects c (last (messages c)))))"

text \<open>
  The role-specific part of \<open>addMessage\<close>, after the content and moderation checks.
\<close>

definition admit :: "conversation \<Rightarrow> nat \<Rightarrow> nat outcome" where
  "admit c m =
     (if role (objects c m) = System then
        (let c1 = c\<lparr>config := (config c)\<lparr>configContext := content (objects c m)\<rparr>\<rparr>;
             c2 = (if content (objects c1 m) \<noteq> [] then
                     (if firstIsSystem c1 then c1\<lparr>messages := (messages c1)[0 := m]\<rparr>
                      else c1\<lparr>messages := m # messages c1\<rparr>)
                   else if firstIsSystem c1 then c1\<lparr>messages := tl (messages c1)\<rparr>
                   else c1)
         in Return m (notifyMessageAdded c2 m))
      else if lastRole c = Some (role (objects c m)) then Throw AdjacentRoleViolation c
      else Return m (notifyMessageAdded (c\<lparr>messages := messages c @ [m]\<rparr>) m))"

definition addMessage :: "conversation \<Rightarrow> nat \<Rightarrow> moderationReply \<Rightarrow> nat outcome" where
  "addMessage c m reply =
     (let c1 = setContent c m (trim (content (objects c m))) in
      if content (objects c1 m) = [] \<and> role (objects c1 m) = User
      then Throw EmptyUserContent c1
      else if isModerationEnabled (config c1) then
        (case reply of
           ModerationFailed \<Rightarrow> Throw TransportError c1
         | Flags flags \<Rightarrow>
             if isModerationStrict (config c1) \<and> flags \<noteq> []
             then Throw (ModerationViolation flags) c1
             else admit c1 m)
      else admit c1 m)"

definition addSystemMessage :: "conversation \<Rightarrow> string \<Rightarrow> moderationReply \<Rightarrow> nat outcome" where
  "addSystemMessage c txt reply =
     (let (m, c1) = newMessage System txt (configModel (config c)) c
      in addMessage c1 m reply)"

definition addAssistantMessage :: "conversation \<Rightarrow> string \<Rightarrow> moderationReply \<Rightarrow> nat outcome" where
  "addAssistantMessage c txt reply =
     (let (m, c1) = newMessage Assistant txt (configModel (config c)) c
      in addMessage c1 m reply)"

definition addUserMessage :: "conversation \<Rightarrow> string \<Rightarrow> moderationReply \<Rightarrow> nat outcome" where
  "addUserMessage c txt reply =
     (let (m, c1) = newMessage User txt (configModel (config c)) c
      in addMessage c1 m reply)"

definition getMessages :: "conversation \<Rightarrow> bool \<Rightarrow> nat list" where
  "getMessages c includeContext =
     (if configContext (config c) = [] then messages c
      else if includeContext then messages c else drop 1 (messages c))"

text \<open>
  \<open>clearMessages\<close> and \<open>setContext\<close> do not await the admission they start
  and drop its promise: a rejection reaches no caller. The state they give is the one
  after the admission has settled.
\<close>

definition stateOf :: "'a outcome \<Rightarrow> conversation" where
  "stateOf r = (case r of Return _ c \<Rightarrow> c | Throw _ c \<Rightarrow> c)"

definition errorOf :: "'a outcome \<Rightarrow> error option" where
  "errorOf r = (case r of Return _ _ \<Rightarrow> None | Throw e _ \<Rightarrow> Some e)"

definition clearMessages :: "conversation \<Rightarrow> moderationReply \<Rightarrow> conversation" where
  "clearMessages c reply =
     (let c1 = c\<lparr>messages := []\<rparr>
      in stateOf (addSystemMessage c1 (configContext (config c1)) reply))"

definition removeMessage :: "conversation \<Rightarrow> nat \<Rightarrow> conversation" where
  "removeMessage c m =
     (if m \<in> set (messages c)
      then notifyMessageRemoved (c\<lparr>messages := filter (\<lambda>k. k \<noteq> m) (messages c)\<rparr>) m
      else c)"

definition setContext :: "conversation \<Rightarrow> string \<Rightarrow> moderationReply \<Rightarrow> conversation" where
  "setContext c txt reply = stateOf (addSystemMessage c txt reply)"

subsection \<open>Size and cost\<close>

definition getSize :: "env \<Rightarrow> conversation \<Rightarrow> nat" where
  "getSize E c = foldl (\<lambda>size m. size + messageSize E (objects c m)) 0 (messages c)"

definition getCost :: "env \<Rightarrow> conversation \<Rightarrow> real" where
  "getCost E c = foldl (\<lambda>cost m. cost + messageCost E (objects c m)) 0 (messages c)"

definition getCumulativeSize :: "conversation \<Rightarrow> nat" where
  "getCumulativeSize c = cumulativeSize c"

definition getCumulativeCost :: "conversation \<Rightarrow> real" where
  "getCumulativeCost c = cumulativeCost c"

subsection \<open>Streaming\<close>

text \<open>
  The subscriber that \<open>handleStreamedResponse\<close> registers on the message's
  streaming-stop event: it adds to the cumulative counters and unsubscribes itself.
  \<open>getSize\<close> and \<open>getCost\<close> are read when the subscriber runs.
\<close>

definition stopSubscriber :: "env \<Rightarrow> conversation \<Rightarrow> nat \<Rightarrow> conversation" where
  "stopSubscriber E c m =
     (let c1 = c\<lparr>cumulativeSize :=
                  cumulativeSize c + (getSize E c + getMessageSize E (content (objects c m)))\<rparr>;
          c2 = c1\<lparr>cumulativeCost :=
                  cumulativeCost c1 + (getCost E c1 + messageCost E (objects c1 m))\<rparr>
      in c2\<lparr>objects := (objects c2)(m := (objects c2 m)\<lparr>stopSubscribed := False\<rparr>)\<rparr>)"

text \<open>
  Modelled from the spec: \<open>Message.readContentFromStream\<close> and the streaming events
  are not part of the sources at hand. Reading a stream into a message attaches the
  stream; every delta that arrives is appended to the content; when the stream ends the
  message emits its streaming-stop event once, which calls the subscribers of that
  moment. The deltas arrive after \<open>handleStreamedResponse\<close> has returned the
  message (the source hands the message out before any content is read, so that callers
  can subscribe), so each arrival is a step of its own, \<open>streamStep\<close>.
\<close>

definition readContentFromStream :: "conversation \<Rightarrow> nat \<Rightarrow> string list \<Rightarrow> conversation" where
  "readContentFromStream c m ds =
     c\<lparr>objects := (objects c)(m := (objects c m)\<lparr>source := Some ds\<rparr>)\<rparr>"

definition emitStreamingStop :: "env \<Rightarrow> conversation \<Rightarrow> nat \<Rightarrow> conversation" where
  "emitStreamingStop E c m =
     (if stopSubscribed (objects c m) then stopSubscriber E c m else c)"

definition streamStep :: "env \<Rightarrow> conversation \<Rightarrow> nat \<Rightarrow> conversation" where
  "streamStep E c m =
     (case source (objects c m) of
        None \<Rightarrow> c
      | Some [] \<Rightarrow>
          emitStreamingStop E
            (c\<lparr>objects := (objects c)(m := (objects c m)\<lparr>source := None\<rparr>)\<rparr>) m
      | Some (d # ds) \<Rightarrow>
          c\<lparr>objects := (objects c)(m := (objects c m)
               \<lparr>content := content (objects c m) @ d, source := Some ds\<rparr>)\<rparr>)"

fun streamSteps :: "env \<Rightarrow> conversation \<Rightarrow> nat \<Rightarrow> nat \<Rightarrow> conversation" where
  "streamSteps E c m 0 = c"
| "streamSteps E c m (Suc n) = streamSteps E (streamStep E c m) m n"

text \<open>The state once the stream of a message, if it reads one, has been read to its end.\<close>

definition finalized :: "env \<Rightarrow> conversation \<Rightarrow> nat \<Rightarrow> conversation" where
  "finalized E c m =
     (case source (objects c m) of
        None \<Rightarrow> c
      | Some ds \<Rightarrow> streamSteps E c m (Suc (length ds)))"

subsection \<open>Response generation\<close>

definition lastContent :: "conversation \<Rightarrow> string option" where
  "lastContent c =
     (if messages c = [] then None else Some (content (objects c (last (messages c)))))"

definition handleStreamedResponse :: "env \<Rightarrow> conversation \<Rightarrow> service \<Rightarrow> nat outcome" where
  "handleStreamedResponse E c sv =
     (let (m, c1) = newMessage Assistant [] (configModel (config c)) c;
          c2 = c1\<lparr>objects := (objects c1)(m := (objects c1 m)\<lparr>stopSubscribed := True\<rparr>)\<rparr>
      in if dry (config c2) then
           Return m (readContentFromStream c2 m
             (createDryChatCompletion E (case lastContent c2 of None \<Rightarrow> [] | Some txt \<Rightarrow> txt)))
         else
           (case deltas sv of
              None \<Rightarrow> Return m c2
            | Some ds \<Rightarrow> Return m (readContentFromStream c2 m ds)))"

text \<open>
  The two updates of the cumulative counters at the end of
  \<open>handleNonStreamedResponse\<close>, with the message not yet admitted.
\<close>

definition addToCumulative :: "env \<Rightarrow> conversation \<Rightarrow> nat \<Rightarrow> conversation" where
  "addToCumulative E c m =
     (let c1 = c\<lparr>cumulativeSize :=
                  cumulativeSize c + (getSize E c + getMessageSize E (content (objects c m)))\<rparr>
      in c1\<lparr>cumulativeCost :=
              cumulativeCost c1 + (getCost E c1 + messageCost E (objects c1 m))\<rparr>)"

text \<open>
  In a dry run on an empty history the content becomes \<open>null\<close>, which is no string;
  the model takes the tokenizer to raise the runtime's TypeError on it. A live answer
  without a first choice raises TypeError as well (\<open>response.choices[0].message\<close>);
  a first choice without a message gives the empty content.
\<close>

definition handleNonStreamedResponse :: "env \<Rightarrow> conversation \<Rightarrow> service \<Rightarrow> nat outcome" where
  "handleNonStreamedResponse E c sv =
     (let (m, c1) = newMessage Assistant [] (configModel (config c)) c
      in if dry (config c1) then
           (case lastContent c1 of
              None \<Rightarrow> Throw TypeError c1
            | Some txt \<Rightarrow> Return m (addToCumulative E (setContent c1 m txt) m))
         else
           (case completion sv of
              None \<Rightarrow> Throw TransportError c1
            | Some [] \<Rightarrow> Throw TypeError c1
            | Some (choice # _) \<Rightarrow>
                Return m (addToCumulative E
                  (setContent c1 m (case choice of None \<Rightarrow> [] | Some txt \<Rightarrow> txt)) m)))"

definition getChatCompletionResponse ::
  "env \<Rightarrow> conversation \<Rightarrow> bool option \<Rightarrow> service \<Rightarrow> nat outcome" where
  "getChatCompletionResponse E c streamOption sv =
     (if (case streamOption of None \<Rightarrow> stream (config c) | Some b \<Rightarrow> b)
      then handleStreamedResponse E c sv
      else handleNonStreamedResponse E c sv)"

definition getAssistantResponse ::
  "env \<Rightarrow> conversation \<Rightarrow> bool option \<Rightarrow> service \<Rightarrow> moderationReply \<Rightarrow> nat outcome" where
  "getAssistantResponse E c streamOption sv reply =
     (case getChatCompletionResponse E c streamOption sv of
        Throw e c1 \<Rightarrow> Throw e c1
      | Return m c1 \<Rightarrow> addMessage c1 m reply)"

subsection \<open>Prompting and reprompting\<close>

definition prompt ::
  "env \<Rightarrow> conversation \<Rightarrow> string \<Rightarrow> bool option \<Rightarrow> moderationReply \<Rightarrow> service \<Rightarrow>
   moderationReply \<Rightarrow> nat outcome" where
  "prompt E c txt streamOption userReply sv assistantReply =
     (case addUserMessage c txt userReply of
        Throw e c1 \<Rightarrow> Throw e c1
      | Return userMessage c1 \<Rightarrow>
          (case getAssistantResponse E c1 streamOption sv assistantReply of
             Return assistantMessage c2 \<Rightarrow> Return assistantMessage c2
           | Throw e c2 \<Rightarrow> Throw e (removeMessage c2 userMessage)))"

fun findIndex :: "('a \<Rightarrow> bool) \<Rightarrow> 'a list \<Rightarrow> nat option" where
  "findIndex P [] = None"
| "findIndex P (x # xs) = (if P x then Some 0 else map_option Suc (findIndex P xs))"

text \<open>
  The index of the message \<open>reprompt\<close> branches from: the message itself when it is
  a user message, else the index before it; index \<open>-1\<close> holds no message.
\<close>

definition previousUserMessageIndex :: "conversation \<Rightarrow> nat \<Rightarrow> nat option" where
  "previousUserMessageIndex c fromIndex =
     (if role (objects c (messages c ! fromIndex)) = User then Some fromIndex
      else if fromIndex = 0 then None
      else Some (fromIndex - 1))"

definition reprompt ::
  "env \<Rightarrow> conversation \<Rightarrow> nat \<Rightarrow> string option \<Rightarrow> bool option \<Rightarrow> service \<Rightarrow>
   moderationReply \<Rightarrow> nat outcome" where
  "reprompt E c fromMessage newPrompt streamOption sv assistantReply =
     (case findIndex (\<lambda>m. m = fromMessage) (messages c) of
        None \<Rightarrow> Throw MessageNotFound c
      | Some fromIndex \<Rightarrow>
          (case previousUserMessageIndex c fromIndex of
             None \<Rightarrow> Throw NoPriorUserMessage c
           | Some p \<Rightarrow>
               (let previousUserMessage = messages c ! p;
                    c1 = (case newPrompt of
                            None \<Rightarrow> c
                          | Some txt \<Rightarrow>
                              if txt \<noteq> [] then setContent c previousUserMessage txt else c);
                    c2 = foldl removeMessage c1 (drop (p + 1) (messages c1))
                in case getAssistantResponse E c2 streamOption sv assistantReply of
                     Return assistantMessage c3 \<Rightarrow> Return assistantMessage c3
                   | Throw e c3 \<Rightarrow> Throw e (removeMessage c3 previousUserMessage))))"

subsection \<open>Configuration and construction\<close>

definition getConfig :: "env \<Rightarrow> conversation \<Rightarrow> conversationConfigParameters" where
  "getConfig E c = configParameters E (config c)"

text \<open>\<open>{ ...a, ...b }\<close>: a property that \<open>b\<close> has wins.\<close>

definition spread :: "'a option \<Rightarrow> 'a option \<Rightarrow> 'a option" where
  "spread a b = (case b of None \<Rightarrow> a | Some v \<Rightarrow> Some v)"

definition mergeParameters ::
  "conversationConfigParameters \<Rightarrow> conversationConfigParameters \<Rightarrow> conversationConfigParameters" where
  "mergeParameters a b =
     \<lparr>paramApiKey = spread (paramApiKey a) (paramApiKey b),
      paramModel = spread (paramModel a) (paramModel b),
      paramContext = spread (paramContext a) (paramContext b),
      paramModeration = spread (paramModeration a) (paramModeration b),
      paramStream = spread (paramStream a) (paramStream b),
      paramDry = spread (paramDry a) (paramDry b)\<rparr>"

definition setConfig ::
  "env \<Rightarrow> conversation \<Rightarrow> conversationConfigParameters \<Rightarrow> bool \<Rightarrow> moderationReply \<Rightarrow>
   unit outcome" where
  "setConfig E c params merge reply =
     (let newConfig = (if merge then mergeParameters (getConfig E c) params else params)
      in case newConversationConfig E newConfig of
           Inl e \<Rightarrow> Throw e c
         | Inr cfg \<Rightarrow>
             (let c1 = c\<lparr>config := cfg\<rparr>
              in Return ()
                   (case paramContext params of
                      None \<Rightarrow> c1
                    | Some txt \<Rightarrow> if txt \<noteq> [] then setContext c1 txt reply else c1)))"

definition blankMessage :: message where
  "blankMessage =
     \<lparr>role = System, content = [], model = [], source = None, stopSubscribed = False\<rparr>"

text \<open>
  The constructor: the fields' initial values, the configuration, then
  \<open>clearMessages\<close>. No message object exists yet; the store's cells are blank.
\<close>

definition newConversation ::
  "env \<Rightarrow> conversationConfigParameters \<Rightarrow> moderationReply \<Rightarrow> error + conversation" where
  "newConversation E params reply =
     (case newConversationConfig E params of
        Inl e \<Rightarrow> Inl e
      | Inr cfg \<Rightarrow>
          Inr (clearMessages
                 \<lparr>config = cfg, messages = [], addMessageListeners = [],
                  removeMessageListeners = [], cumulativeSize = 0, cumulativeCost = 0,
                  objects = (\<lambda>_. blankMessage), uuid = 0, notified = []\<rparr> reply))"

subsection \<open>The public operations\<close>

text \<open>
  A call of a public method with its arguments and with the answers the services give
  during the call; \<open>StreamStep\<close> is the arrival of the next delta, or of the end,
  of the stream that a message reads.
\<close>

datatype operation =
    AddUserMessage string moderationReply
  | AddAssistantMessage string moderationReply
  | ClearMessages moderationReply
  | RemoveMessage nat
  | GetChatCompletionResponse "bool option" service
  | Prompt string "bool option" moderationReply service moderationReply
  | Reprompt nat "string option" "bool option" service moderationReply
  | SetContext string moderationReply
  | SetConfig conversationConfigParameters bool moderationReply
  | OnMessageAdded nat
  | OffMessageAdded nat
  | OnMessageRemoved nat
  | OffMessageRemoved nat
  | StreamStep nat

text \<open>The error a call raises to its caller, if any, and the state after the call.\<close>

definition raised :: "'a outcome \<Rightarrow> error option \<times> conversation" where
  "raised r = (errorOf r, stateOf r)"

fun exec :: "env \<Rightarrow> operation \<Rightarrow> conversation \<Rightarrow> error option \<times> conversation" where
  "exec E (AddUserMessage txt reply) c = raised (addUserMessage c txt reply)"
| "exec E (AddAssistantMessage txt reply) c = raised (addAssistantMessage c txt reply)"
| "exec E (ClearMessages reply) c = (None, clearMessages c reply)"
| "exec E (RemoveMessage m) c = (None, removeMessage c m)"
| "exec E (GetChatCompletionResponse streamOption sv) c =
     raised (getChatCompletionResponse E c streamOption sv)"
| "exec E (Prompt txt streamOption userReply sv assistantReply) c =
     raised (prompt E c txt streamOption userReply sv assistantReply)"
| "exec E (Reprompt m newPrompt streamOption sv assistantReply) c =
     raised (reprompt E c m newPrompt streamOption sv assistantReply)"
| "exec E (SetContext txt reply) c = (None, setContext c txt reply)"
| "exec E (SetConfig params merge reply) c = raised (setConfig E c params merge reply)"
| "exec E (OnMessageAdded l) c = (None, onMessageAdded c l)"
| "exec E (OffMessageAdded l) c = (None, offMessageAdded c l)"
| "exec E (OnMessageRemoved l) c = (None, onMessageRemoved c l)"
| "exec E (OffMessageRemoved l) c = (None, offMessageRemoved c l)"
| "exec E (StreamStep m) c = (None, streamStep E c m)"

fun run :: "env \<Rightarrow> operation list \<Rightarrow> conversation \<Rightarrow> conversation" where
  "run E [] c = c"
| "run E (x # xs) c = run E xs (snd (exec E x c))"

subsection \<open>Predicates of the properties\<close>

text \<open>
  The answer of the moderation service lets a message pass: moderation is off, or the
  call succeeds and, under the strict policy, raises no flag.
\<close>

definition moderationPasses :: "conversationConfig \<Rightarrow> moderationReply \<Rightarrow> bool" where
  "moderationPasses cfg reply =
     (if isModerationEnabled cfg then
        (case reply of
           ModerationFailed \<Rightarrow> False
         | Flags flags \<Rightarrow> \<not> (isModerationStrict cfg \<and> flags \<noteq> []))
      else True)"


text \<open>
  Ids are unique: no message is twice in the history, and every id in it has been handed
  out already.
\<close>

definition wellFormed :: "conversation \<Rightarrow> bool" where
  "wellFormed c = (distinct (messages c) \<and> list_all (\<lambda>m. m < uuid c) (messages c))"

definition rolesOf :: "conversation \<Rightarrow> role list" where
  "rolesOf c = map (\<lambda>m. role (objects c m)) (messages c)"

fun noAdjacentSameRole :: "role list \<Rightarrow> bool" where
  "noAdjacentSameRole (a # b # rs) = (a \<noteq> b \<and> noAdjacentSameRole (b # rs))"
| "noAdjacentSameRole rs = True"


subsection \<open>An instance for evaluation\<close>

text \<open>
  Collaborators to run the model on concrete calls: a tokenizer that counts characters,
  a price of a thousandth per token, a configuration whose defaults are an empty
  context, no moderation, batched answers and live requests, and a dry-run stream that
  yields the text one character at a time.
\<close>

definition exampleEnv :: env where
  "exampleEnv =
     \<lparr>getMessageSize = length,
      price = (\<lambda>r mdl n. real n / 1000),
      newConversationConfig = (\<lambda>p. Inr
        \<lparr>apiKey = (case paramApiKey p of None \<Rightarrow> [] | Some v \<Rightarrow> v),
         configModel = (case paramModel p of None \<Rightarrow> ''gpt-3.5-turbo'' | Some v \<Rightarrow> v),
         configContext = (case paramContext p of None \<Rightarrow> [] | Some v \<Rightarrow> v),
         moderation = (case paramModeration p of None \<Rightarrow> Off | Some v \<Rightarrow> v),
         stream = (case paramStream p of None \<Rightarrow> False | Some v \<Rightarrow> v),
         dry = (case paramDry p of None \<Rightarrow> False | Some v \<Rightarrow> v)\<rparr>),
      configParameters = (\<lambda>cfg.
        \<lparr>paramApiKey = Some (apiKey cfg), paramModel = Some (configModel cfg),
         paramContext = Some (configContext cfg), paramModeration = Some (moderation cfg),
         paramStream = Some (stream cfg), paramDry = Some (dry cfg)\<rparr>),
      createDryChatCompletion = map (\<lambda>ch. [ch])\<rparr>"

definition noParameters :: conversationConfigParameters where
  "noParameters =
     \<lparr>paramApiKey = None, paramModel = None, paramContext = None, paramModeration = None,
      paramStream = None, paramDry = None\<rparr>"

definition noService :: service where
  "noService = \<lparr>completion = None, deltas = None\<rparr>"

text \<open>\<open>new Conversation(params)\<close> on the instance, where no construction fails.\<close>

definition exampleConversation :: "conversationConfigParameters \<Rightarrow> conversation" where
  "exampleConversation params = projr (newConversation exampleEnv params (Flags []))"

text \<open>Neither cumulative counter is smaller in the second state than in the first.\<close>

definition countersGrow :: "conversation \<Rightarrow> conversation \<Rightarrow> bool" where
  "countersGrow c c' =
     (cumulativeSize c \<le> cumulativeSize c' \<and> cumulativeCost c \<le> cumulativeCost c')"

text \<open>No price is negative.\<close>

definition priceNonNegative :: "env \<Rightarrow> bool" where
  "priceNonNegative E = (\<forall>r mdl n. 0 \<le> price E r mdl n)"

text \<open>\<open>new Conversation({dry: true})\<close> on the instance.\<close>

definition exampleDry :: conversation where
  "exampleDry = exampleConversation (noParameters\<lparr>paramDry := Some True\<rparr>)"

text \<open>
  A conversation with the context "Be terse.", the same after \<open>addUserMessage("Hi")\<close>,
  and that one with a second user message created but not yet admitted.
\<close>

definition exampleTerse :: conversation where
  "exampleTerse = exampleConversation (noParameters\<lparr>paramContext := Some ''Be terse.''\<rparr>)"

definition exampleHi :: conversation where
  "exampleHi = snd (exec exampleEnv (AddUserMessage ''Hi'' (Flags [])) exampleTerse)"


text \<open>
  The calls of the remove-listeners that the removal of the given messages makes, in
  order, when every one of them is in the history.
\<close>

definition removalNotices :: "conversation \<Rightarrow> nat list \<Rightarrow> (nat \<times> notification) list" where
  "removalNotices c ms =
     concat (map (\<lambda>m. map (\<lambda>l. (l, MessageRemoved m)) (removeMessageListeners c)) ms)"



text \<open>No message after the first is a system message.\<close>

definition systemOnlyFirst :: "conversation \<Rightarrow> bool" where
  "systemOnlyFirst c = list_all (\<lambda>m. role (objects c m) \<noteq> System) (tl (messages c))"

section \<open>Properties\<close>

subsection \<open>Strings and lists\<close>

lemma last_dropWhile_nonempty:
  assumes "dropWhile P xs \<noteq> []"
  shows "last (dropWhile P xs) = last xs"
proof -
  have "last (takeWhile P xs @ dropWhile P xs) = last (dropWhile P xs)"
    using assms by (rule last_appendR)
  then show ?thesis by simp
qed

lemma trim_trim: "trim (trim s) = trim s"
proof -
  define A where "A = dropWhile isWhitespace s"
  define B where "B = dropWhile isWhitespace (rev A)"
  have t: "trim s = rev B" by (simp add: trim_def A_def B_def)
  have 1: "dropWhile isWhitespace (rev B) = rev B"
  proof (cases "B = []")
    case True
    then show ?thesis by simp
  next
    case False
    then have "last B = last (rev A)"
      unfolding B_def by (rule last_dropWhile_nonempty)
    moreover have An: "A \<noteq> []" using False by (auto simp: B_def)
    ultimately have "last B = hd A" by (simp add: last_rev)
    moreover have "\<not> isWhitespace (hd A)"
      using An unfolding A_def by (rule hd_dropWhile)
    ultimately have "\<not> isWhitespace (hd (rev B))" using False by (simp add: hd_rev)
    then show ?thesis by (simp add: dropWhile_eq_self_iff)
  qed
  have "trim (rev B) = rev (dropWhile isWhitespace (rev (dropWhile isWhitespace (rev B))))"
    by (simp only: trim_def)
  also have "\<dots> = rev (dropWhile isWhitespace B)" by (simp only: 1 rev_rev_ident)
  also have "\<dots> = rev B" unfolding B_def by (simp only: dropWhile_idem)
  finally show ?thesis by (simp only: t)
qed

lemma trim_Nil: "trim [] = []"
  by (simp add: trim_def)

lemma trim_Hello: "trim ''Hello'' = ''Hello''"
  by (simp add: trim_def isWhitespace_def)

lemma findIndex_None: "findIndex (\<lambda>k. k = m) xs = None \<longleftrightarrow> m \<notin> set xs"
  by (induction xs) auto



subsection \<open>Evaluation of concrete calls\<close>

lemmas updaters =
  setContent_def notifyMessageAdded_def notifyMessageRemoved_def newMessage_def
  addToCumulative_def readContentFromStream_def

lemmas evaluation =
  exampleConversation_def newConversation_def exampleEnv_def noParameters_def noService_def
  clearMessages_def setContext_def addSystemMessage_def addUserMessage_def
  addAssistantMessage_def addMessage_def admit_def firstIsSystem_def lastRole_def
  lastContent_def updaters removeMessage_def prompt_def getAssistantResponse_def
  getChatCompletionResponse_def handleStreamedResponse_def handleNonStreamedResponse_def
  isModerationEnabled_def isModerationStrict_def trim_def isWhitespace_def
  stateOf_def errorOf_def raised_def wellFormed_def Let_def blankMessage_def
  getSize_def getCost_def messageSize_def messageCost_def
  reprompt_def previousUserMessageIndex_def
  onMessageAdded_def offMessageAdded_def onMessageRemoved_def offMessageRemoved_def
  removalNotices_def streamStep_def emitStreamingStop_def stopSubscriber_def finalized_def
  getMessages_def

subsection \<open>What an admission does\<close>

lemma addMessage_Throw:
  "addMessage c m reply = Throw e c' \<Longrightarrow> c' = setContent c m (trim (content (objects c m)))"
  by (auto simp: addMessage_def admit_def Let_def split: if_splits moderationReply.splits)

lemma addMessage_admits:
  assumes "role (objects c m) \<noteq> System"
    and "\<not> (role (objects c m) = User \<and> trim (content (objects c m)) = [])"
    and "moderationPasses (config c) reply"
    and "lastRole c \<noteq> Some (role (objects c m))"
  shows "addMessage c m reply =
    Return m (notifyMessageAdded
      ((setContent c m (trim (content (objects c m))))\<lparr>messages := messages c @ [m]\<rparr>) m)"
  using assms
  by (auto simp: addMessage_def admit_def Let_def moderationPasses_def lastRole_def
      setContent_def split: if_splits moderationReply.splits)






subsection \<open>What a response generation does\<close>

lemma getChatCompletionResponse_effect:
  assumes "stateOf (getChatCompletionResponse E c so sv) = c1"
  shows "messages c1 = messages c \<and> config c1 = config c \<and> uuid c1 = Suc (uuid c) \<and>
    addMessageListeners c1 = addMessageListeners c \<and>
    removeMessageListeners c1 = removeMessageListeners c \<and> notified c1 = notified c \<and>
    role (objects c1 (uuid c)) = Assistant \<and>
    (\<forall>k. k \<noteq> uuid c \<longrightarrow> objects c1 k = objects c k)"
  using assms
  by (auto simp: getChatCompletionResponse_def handleStreamedResponse_def
      handleNonStreamedResponse_def updaters Let_def stateOf_def
      split: if_splits option.splits list.splits)

lemma getChatCompletionResponse_Return:
  "getChatCompletionResponse E c so sv = Return a c1 \<Longrightarrow> a = uuid c"
  by (auto simp: getChatCompletionResponse_def handleStreamedResponse_def
      handleNonStreamedResponse_def updaters Let_def
      split: if_splits option.splits list.splits)








subsection \<open>The cumulative counters\<close>

lemma countersGrow_refl: "countersGrow c c"
  by (simp add: countersGrow_def)

lemma countersGrow_trans: "countersGrow a b \<Longrightarrow> countersGrow b c \<Longrightarrow> countersGrow a c"
  by (auto simp: countersGrow_def)

lemma countersGrow_same:
  "cumulativeSize c' = cumulativeSize c \<Longrightarrow> cumulativeCost c' = cumulativeCost c \<Longrightarrow>
   countersGrow c c'"
  by (simp add: countersGrow_def)

lemma foldl_add_nonneg:
  fixes a :: real
  assumes "\<forall>x. 0 \<le> f x" and "0 \<le> a"
  shows "0 \<le> foldl (\<lambda>acc x. acc + f x) a xs"
  using assms(2)
proof (induction xs arbitrary: a)
  case Nil
  then show ?case by simp
next
  case (Cons x xs)
  have "0 \<le> a + f x" using Cons.prems assms(1) by (simp add: add_nonneg_nonneg)
  then show ?case using Cons.IH by simp
qed

lemma messageCost_nonneg: "priceNonNegative E \<Longrightarrow> 0 \<le> messageCost E m"
  by (simp add: priceNonNegative_def messageCost_def)

lemma getCost_nonneg:
  assumes "priceNonNegative E"
  shows "0 \<le> getCost E c"
  unfolding getCost_def
  by (rule foldl_add_nonneg) (simp_all add: messageCost_nonneg[OF assms])

lemma addToCumulative_grows:
  assumes "priceNonNegative E"
  shows "countersGrow c (addToCumulative E c m)"
  using getCost_nonneg[OF assms, of "c\<lparr>cumulativeSize :=
                  cumulativeSize c + (getSize E c + getMessageSize E (content (objects c m)))\<rparr>"]
    messageCost_nonneg[OF assms, of "objects c m"]
  by (simp add: countersGrow_def addToCumulative_def Let_def)

lemma stopSubscriber_grows:
  assumes "priceNonNegative E"
  shows "countersGrow c (stopSubscriber E c m)"
  using getCost_nonneg[OF assms, of "c\<lparr>cumulativeSize :=
                  cumulativeSize c + (getSize E c + getMessageSize E (content (objects c m)))\<rparr>"]
    messageCost_nonneg[OF assms, of "objects c m"]
  by (simp add: countersGrow_def stopSubscriber_def Let_def)

lemma streamStep_grows:
  assumes "priceNonNegative E"
  shows "countersGrow c (streamStep E c m)"
proof -
  have "countersGrow (c\<lparr>objects := (objects c)(m := (objects c m)\<lparr>source := None\<rparr>)\<rparr>)
     (stopSubscriber E (c\<lparr>objects := (objects c)(m := (objects c m)\<lparr>source := None\<rparr>)\<rparr>) m)"
    using assms by (rule stopSubscriber_grows)
  then show ?thesis
    by (auto simp: streamStep_def emitStreamingStop_def countersGrow_def
        split: option.splits list.splits)
qed

lemma addMessage_counters:
  "cumulativeSize (stateOf (addMessage c m reply)) = cumulativeSize c \<and>
   cumulativeCost (stateOf (addMessage c m reply)) = cumulativeCost c"
  by (auto simp: addMessage_def admit_def Let_def stateOf_def updaters
      split: moderationReply.splits)

lemma addMessage_same: "countersGrow c (stateOf (addMessage c m reply))"
  using addMessage_counters[of c m reply] by (simp add: countersGrow_def)

lemma newMessage_same: "countersGrow c (snd (newMessage r body mdl c))"
  by (simp add: countersGrow_def newMessage_def)

lemma add_new_same:
  "countersGrow c (stateOf (addMessage (snd (newMessage r body mdl c)) (uuid c) reply))"
  using countersGrow_trans[OF newMessage_same addMessage_same] .

lemma addUserMessage_same: "countersGrow c (stateOf (addUserMessage c body reply))"
  using add_new_same[of c User body] by (simp add: addUserMessage_def newMessage_def)

lemma addAssistantMessage_same: "countersGrow c (stateOf (addAssistantMessage c body reply))"
  using add_new_same[of c Assistant body] by (simp add: addAssistantMessage_def newMessage_def)

lemma addSystemMessage_same: "countersGrow c (stateOf (addSystemMessage c body reply))"
  using add_new_same[of c System body] by (simp add: addSystemMessage_def newMessage_def)

lemma setContext_same: "countersGrow c (setContext c body reply)"
  using addSystemMessage_same by (simp add: setContext_def)

lemma clearMessages_same: "countersGrow c (clearMessages c reply)"
  using addSystemMessage_same[of "c\<lparr>messages := []\<rparr>"]
  by (simp add: clearMessages_def countersGrow_def)

lemma removeMessage_same: "countersGrow c (removeMessage c m)"
  by (simp add: removeMessage_def countersGrow_def notifyMessageRemoved_def)

lemma foldl_removeMessage_same: "countersGrow c (foldl removeMessage c ms)"
proof (induction ms arbitrary: c)
  case Nil
  then show ?case by (simp add: countersGrow_refl)
next
  case (Cons m ms)
  show ?case using countersGrow_trans[OF removeMessage_same Cons.IH] by simp
qed

lemma getChatCompletionResponse_grows:
  assumes "priceNonNegative E"
  shows "countersGrow c (stateOf (getChatCompletionResponse E c so sv))"
proof -
  have n: "\<And>body. countersGrow c (snd (newMessage Assistant body (configModel (config c)) c))"
    by (rule newMessage_same)
  have s: "countersGrow d (addToCumulative E (setContent d k body) k)" for d k body
    using addToCumulative_grows[OF assms, of "setContent d k body" k]
    by (simp add: countersGrow_def setContent_def)
  have "countersGrow c (stateOf (handleStreamedResponse E c sv))"
    by (simp add: handleStreamedResponse_def newMessage_def readContentFromStream_def
        stateOf_def countersGrow_def Let_def split: option.splits)
  moreover have "countersGrow c (stateOf (handleNonStreamedResponse E c sv))"
    using countersGrow_trans[OF n s]
    by (auto simp: handleNonStreamedResponse_def stateOf_def Let_def newMessage_def
        countersGrow_refl split: option.splits list.splits intro: countersGrow_same)
  ultimately show ?thesis by (simp add: getChatCompletionResponse_def)
qed


lemma getAssistantResponse_grows:
  assumes "priceNonNegative E"
  shows "countersGrow c (stateOf (getAssistantResponse E c so sv reply))"
proof (cases "getChatCompletionResponse E c so sv")
  case (Return a c1)
  then have "countersGrow c c1"
    using getChatCompletionResponse_grows[OF assms, of c so sv] by (simp add: stateOf_def)
  then show ?thesis
    using Return countersGrow_trans[OF _ addMessage_same[of c1 a reply]]
    by (simp add: getAssistantResponse_def)
next
  case (Throw e c1)
  then show ?thesis
    using getChatCompletionResponse_grows[OF assms, of c so sv]
    by (simp add: getAssistantResponse_def stateOf_def)
qed

lemma prompt_grows:
  assumes "priceNonNegative E"
  shows "countersGrow c (stateOf (prompt E c body so userReply sv assistantReply))"
proof (cases "addUserMessage c body userReply")
  case (Return u c1)
  then have 1: "countersGrow c c1"
    using addUserMessage_same[of c body userReply] by (simp add: stateOf_def)
  show ?thesis
  proof (cases "getAssistantResponse E c1 so sv assistantReply")
    case r: (Return a c2)
    then have "countersGrow c1 c2"
      using getAssistantResponse_grows[OF assms, of c1 so sv assistantReply]
      by (simp add: stateOf_def)
    then show ?thesis using Return r countersGrow_trans[OF 1]
      by (simp add: prompt_def stateOf_def)
  next
    case t: (Throw e c2)
    then have "countersGrow c1 c2"
      using getAssistantResponse_grows[OF assms, of c1 so sv assistantReply]
      by (simp add: stateOf_def)
    then have "countersGrow c (removeMessage c2 u)"
      using countersGrow_trans[OF 1] countersGrow_trans[OF _ removeMessage_same] by blast
    then show ?thesis using Return t by (simp add: prompt_def stateOf_def)
  qed
next
  case (Throw e c1)
  then show ?thesis
    using addUserMessage_same[of c body userReply] by (simp add: prompt_def stateOf_def)
qed

lemma reprompt_grows:
  assumes "priceNonNegative E"
  shows "countersGrow c (stateOf (reprompt E c m newPrompt so sv reply))"
proof (cases "findIndex (\<lambda>k. k = m) (messages c)")
  case None
  then show ?thesis by (simp add: reprompt_def stateOf_def countersGrow_refl)
next
  case (Some i)
  show ?thesis
  proof (cases "previousUserMessageIndex c i")
    case None
    then show ?thesis using Some by (simp add: reprompt_def stateOf_def countersGrow_refl)
  next
    case p: (Some p)
    define c1 where "c1 = (case newPrompt of None \<Rightarrow> c
       | Some body \<Rightarrow> if body \<noteq> [] then setContent c (messages c ! p) body else c)"
    define c2 where "c2 = foldl removeMessage c1 (drop (p + 1) (messages c1))"
    have 1: "countersGrow c c1"
      by (simp add: c1_def countersGrow_def setContent_def split: option.splits)
    have 2: "countersGrow c1 c2" unfolding c2_def by (rule foldl_removeMessage_same)
    have 3: "countersGrow c2 (stateOf (getAssistantResponse E c2 so sv reply))"
      using assms by (rule getAssistantResponse_grows)
    have r: "reprompt E c m newPrompt so sv reply =
      (case getAssistantResponse E c2 so sv reply of
         Return a c3 \<Rightarrow> Return a c3
       | Throw e c3 \<Rightarrow> Throw e (removeMessage c3 (messages c ! p)))"
      using Some p by (simp add: reprompt_def c1_def c2_def Let_def)
    have 12: "countersGrow c c2" using 1 2 by (rule countersGrow_trans)
    show ?thesis
    proof (cases "getAssistantResponse E c2 so sv reply")
      case (Return a c3)
      then show ?thesis using r 3 countersGrow_trans[OF 12] by (simp add: stateOf_def)
    next
      case (Throw e c3)
      then have "countersGrow c c3" using 3 countersGrow_trans[OF 12] by (simp add: stateOf_def)
      then have "countersGrow c (removeMessage c3 (messages c ! p))"
        using countersGrow_trans[OF _ removeMessage_same] by blast
      then show ?thesis using r Throw by (simp add: stateOf_def)
    qed
  qed
qed

lemma setConfig_same: "countersGrow c (stateOf (setConfig E c params merge reply))"
proof -
  have "countersGrow c (setContext (c\<lparr>config := cfg\<rparr>) body reply)" for cfg body
    using setContext_same[of "c\<lparr>config := cfg\<rparr>" body reply] by (simp add: countersGrow_def)
  then show ?thesis
    by (auto simp: setConfig_def stateOf_def Let_def countersGrow_refl
        split: sum.splits option.splits intro: countersGrow_same)
qed

lemma exec_grows:
  assumes "priceNonNegative E"
  shows "countersGrow c (snd (exec E x c))"
proof (cases x)
  case (AddUserMessage body reply)
  then show ?thesis using addUserMessage_same by (simp add: raised_def)
next
  case (AddAssistantMessage body reply)
  then show ?thesis using addAssistantMessage_same by (simp add: raised_def)
next
  case (ClearMessages reply)
  then show ?thesis using clearMessages_same by simp
next
  case (RemoveMessage m)
  then show ?thesis using removeMessage_same by simp
next
  case (GetChatCompletionResponse so sv)
  then show ?thesis using getChatCompletionResponse_grows[OF assms] by (simp add: raised_def)
next
  case (Prompt body so userReply sv assistantReply)
  then show ?thesis using prompt_grows[OF assms] by (simp add: raised_def)
next
  case (Reprompt m newPrompt so sv reply)
  then show ?thesis using reprompt_grows[OF assms] by (simp add: raised_def)
next
  case (SetContext body reply)
  then show ?thesis using setContext_same by simp
next
  case (SetConfig params merge reply)
  then show ?thesis using setConfig_same by (simp add: raised_def)
next
  case (OnMessageAdded l)
  then show ?thesis by (simp add: onMessageAdded_def countersGrow_def)
next
  case (OffMessageAdded l)
  then show ?thesis by (simp add: offMessageAdded_def countersGrow_def)
next
  case (OnMessageRemoved l)
  then show ?thesis by (simp add: onMessageRemoved_def countersGrow_def)
next
  case (OffMessageRemoved l)
  then show ?thesis by (simp add: offMessageRemoved_def countersGrow_def)
next
  case (StreamStep m)
  then show ?thesis using streamStep_grows[OF assms] by simp
qed

lemma priceNonNegative_example: "priceNonNegative exampleEnv"
  by (simp add: priceNonNegative_def exampleEnv_def)

subsection \<open>Unique ids and alternating roles\<close>



lemma wellFormed_fresh: "wellFormed c \<Longrightarrow> uuid c \<notin> set (messages c)"
  by (auto simp: wellFormed_def list_all_iff)


lemma wellFormed_same:
  assumes "wellFormed c" and "messages c' = messages c" and "uuid c \<le> uuid c'"
  shows "wellFormed c'"
  using assms by (auto simp: wellFormed_def list_all_iff)



lemma lastRole_newMessage:
  assumes "wellFormed c"
  shows "lastRole (snd (newMessage r body mdl c)) = lastRole c"
proof (cases "messages c = []")
  case True
  then show ?thesis by (simp add: lastRole_def newMessage_def)
next
  case False
  then have "last (messages c) \<in> set (messages c)" by simp
  then have "last (messages c) \<noteq> uuid c" using wellFormed_fresh[OF assms] by auto
  then show ?thesis using False by (simp add: lastRole_def newMessage_def)
qed




lemma newConversation_wellFormed:
  assumes "newConversation E params reply = Inr c"
  shows "wellFormed c \<and> noAdjacentSameRole (rolesOf c)"
  using assms
  by (auto simp: newConversation_def clearMessages_def addSystemMessage_def addMessage_def
      admit_def firstIsSystem_def updaters stateOf_def wellFormed_def rolesOf_def Let_def
      split: sum.splits if_splits moderationReply.splits)

subsection \<open>Removals\<close>






subsection \<open>Streams and dry runs\<close>

lemma emitStreamingStop_fields:
  "content (objects (emitStreamingStop E c m) k) = content (objects c k) \<and>
   source (objects (emitStreamingStop E c m) k) = source (objects c k) \<and>
   messages (emitStreamingStop E c m) = messages c"
  by (simp add: emitStreamingStop_def stopSubscriber_def Let_def)

lemma stopSubscriber_cumulativeSize:
  "cumulativeSize (stopSubscriber E c m) =
   cumulativeSize c + (getSize E c + getMessageSize E (content (objects c m)))"
  by (simp add: stopSubscriber_def Let_def)

lemma streamSteps_content:
  assumes "source (objects c m) = Some ds"
  shows "content (objects (streamSteps E c m (Suc (length ds))) m)
      = content (objects c m) @ concat ds \<and>
    source (objects (streamSteps E c m (Suc (length ds))) m) = None"
  using assms
proof (induction ds arbitrary: c)
  case Nil
  then show ?case by (simp add: streamStep_def emitStreamingStop_fields)
next
  case (Cons d ds)
  define c' where "c' = streamStep E c m"
  have c': "source (objects c' m) = Some ds" "content (objects c' m) = content (objects c m) @ d"
    using Cons.prems by (simp_all add: c'_def streamStep_def)
  have "streamSteps E c m (Suc (length (d # ds))) = streamSteps E c' m (Suc (length ds))"
    by (simp add: c'_def)
  then show ?case using Cons.IH[OF c'(1)] c'(2) by simp
qed

lemma streamSteps_cumulativeSize:
  assumes "source (objects c m) = Some ds" and "stopSubscribed (objects c m)"
  shows "cumulativeSize c + getMessageSize E (content (objects c m) @ concat ds)
     \<le> cumulativeSize (streamSteps E c m (Suc (length ds)))"
  using assms
proof (induction ds arbitrary: c)
  case Nil
  then show ?case
    by (simp add: streamStep_def emitStreamingStop_def stopSubscriber_cumulativeSize)
next
  case (Cons d ds)
  define c' where "c' = streamStep E c m"
  have c': "source (objects c' m) = Some ds" "content (objects c' m) = content (objects c m) @ d"
    "stopSubscribed (objects c' m)" "cumulativeSize c' = cumulativeSize c"
    using Cons.prems by (simp_all add: c'_def streamStep_def)
  have "streamSteps E c m (Suc (length (d # ds))) = streamSteps E c' m (Suc (length ds))"
    by (simp add: c'_def)
  then show ?case using Cons.IH[OF c'(1,3)] c'(2,4) by simp
qed

lemma addUserMessage_admits:
  assumes "wellFormed c" and "trim body \<noteq> []" and "moderationPasses (config c) reply"
    and "lastRole c \<noteq> Some User"
  shows "addUserMessage c body reply =
    Return (uuid c)
      (c\<lparr>objects := (objects c)(uuid c :=
            \<lparr>role = User, content = trim body, model = configModel (config c),
             source = None, stopSubscribed = False\<rparr>),
         uuid := Suc (uuid c),
         messages := messages c @ [uuid c],
         notified := notified c @ map (\<lambda>l. (l, MessageAdded (uuid c))) (addMessageListeners c)\<rparr>)"
proof -
  define c0 where "c0 = snd (newMessage User body (configModel (config c)) c)"
  have l: "lastRole c0 = lastRole c" unfolding c0_def using assms(1) by (rule lastRole_newMessage)
  have o: "objects c0 (uuid c) = \<lparr>role = User, content = trim body, model = configModel (config c),
             source = None, stopSubscribed = False\<rparr>" by (simp add: c0_def newMessage_def)
  have "addMessage c0 (uuid c) reply =
    Return (uuid c) (notifyMessageAdded
      ((setContent c0 (uuid c) (trim (content (objects c0 (uuid c)))))
         \<lparr>messages := messages c0 @ [uuid c]\<rparr>) (uuid c))"
  proof (rule addMessage_admits)
    show "role (objects c0 (uuid c)) \<noteq> System" by (simp add: o)
    show "\<not> (role (objects c0 (uuid c)) = User \<and> trim (content (objects c0 (uuid c))) = [])"
      using assms(2) by (simp add: o trim_trim)
    show "moderationPasses (config c0) reply" using assms(3) by (simp add: c0_def newMessage_def)
    show "lastRole c0 \<noteq> Some (role (objects c0 (uuid c)))" using assms(4) l by (simp add: o)
  qed
  then show ?thesis
    by (simp add: addUserMessage_def newMessage_def c0_def updaters trim_trim)
qed


lemma lastContent_snoc:
  "messages c = ms @ [u] \<Longrightarrow> lastContent c = Some (content (objects c u))"
  by (simp add: lastContent_def)

lemma lastRole_snoc:
  "messages c = ms @ [u] \<Longrightarrow> lastRole c = Some (role (objects c u))"
  by (simp add: lastRole_def)

text \<open>A dry-run response on a history that ends with the message u.\<close>

lemma getChatCompletionResponse_dry:
  assumes "dry (config c)" and "messages c = ms @ [u]" and "u \<noteq> uuid c"
    and "body = content (objects c u)"
  shows "\<exists>c2. getChatCompletionResponse E c so sv = Return (uuid c) c2 \<and>
    messages c2 = messages c \<and> config c2 = config c \<and> objects c2 u = objects c u \<and>
    role (objects c2 (uuid c)) = Assistant \<and>
    ((source (objects c2 (uuid c)) = None \<and> content (objects c2 (uuid c)) = body \<and>
      cumulativeSize c + getMessageSize E body \<le> cumulativeSize c2) \<or>
     (source (objects c2 (uuid c)) = Some (createDryChatCompletion E body) \<and>
      content (objects c2 (uuid c)) = [] \<and> stopSubscribed (objects c2 (uuid c))))"
proof -
  define c0 where "c0 = snd (newMessage Assistant [] (configModel (config c)) c)"
  have l: "lastContent c0 = Some body"
    using assms(2,3,4) lastContent_snoc[of c0 ms u] by (simp add: c0_def newMessage_def)
  have d: "dry (config c0)" using assms(1) by (simp add: c0_def newMessage_def)
  show ?thesis
  proof (cases "case so of None \<Rightarrow> stream (config c) | Some b \<Rightarrow> b")
    case True
    have l2: "lastContent (c0\<lparr>objects := (objects c0)(uuid c := (objects c0 (uuid c))\<lparr>stopSubscribed := True\<rparr>)\<rparr>)
       = Some body"
      using assms(2,3,4) by (simp add: lastContent_def c0_def newMessage_def)
    have "getChatCompletionResponse E c so sv = handleStreamedResponse E c sv"
      using True by (simp add: getChatCompletionResponse_def)
    then show ?thesis using d l2 assms(3)
      by (simp add: handleStreamedResponse_def newMessage_def c0_def Let_def
          readContentFromStream_def trim_Nil)
  next
    case False
    have "getChatCompletionResponse E c so sv = handleNonStreamedResponse E c sv"
      using False by (simp add: getChatCompletionResponse_def)
    then show ?thesis using d l assms(3)
      by (simp add: handleNonStreamedResponse_def newMessage_def c0_def Let_def
          addToCumulative_def setContent_def trim_Nil)
  qed
qed


lemma emitStreamingStop_once:
  "emitStreamingStop E (emitStreamingStop E c m) m = emitStreamingStop E c m"
  by (simp add: emitStreamingStop_def stopSubscriber_def Let_def)

lemma foldl_add_ge:
  fixes a :: nat
  shows "x \<in> set xs \<Longrightarrow> a + f x \<le> foldl (\<lambda>acc y. acc + f y) a xs"
proof (induction xs arbitrary: a)
  case Nil
  then show ?case by simp
next
  case (Cons y ys)
  have mono: "b \<le> foldl (\<lambda>acc y. acc + f y) b zs" for b zs
    by (induction zs arbitrary: b) (simp, metis foldl_Cons le_add1 le_trans)
  show ?case
  proof (cases "x = y")
    case True
    then show ?thesis using mono[of "a + f y" ys] by simp
  next
    case False
    then have "x \<in> set ys" using Cons.prems by simp
    then have "(a + f y) + f x \<le> foldl (\<lambda>acc y. acc + f y) (a + f y) ys" by (rule Cons.IH)
    then show ?thesis by simp
  qed
qed

text \<open>When the message is in the history already, the subscriber counts its size twice.\<close>

lemma stopSubscriber_admitted:
  assumes "m \<in> set (messages c)"
  shows "cumulativeSize c + 2 * getMessageSize E (content (objects c m))
     \<le> cumulativeSize (stopSubscriber E c m)"
proof -
  have "0 + messageSize E (objects c m) \<le> getSize E c"
    unfolding getSize_def using assms by (rule foldl_add_ge)
  then show ?thesis by (simp add: stopSubscriber_cumulativeSize messageSize_def)
qed

subsection \<open>Invariants of every reachable conversation\<close>

text \<open>The admission of a message that is not in the history and whose id has been handed out.\<close>

lemma addMessage_wellFormed:
  assumes "wellFormed c" and "m \<notin> set (messages c)" and "m < uuid c"
  shows "wellFormed (stateOf (addMessage c m reply))"
proof -
  have d: "distinct (messages c)" and b: "\<forall>k\<in>set (messages c). k < uuid c"
    using assms(1) by (simp_all add: wellFormed_def list_all_iff)
  have upd: "distinct ((messages c)[0 := m])" "\<forall>k\<in>set ((messages c)[0 := m]). k < uuid c"
    using d b assms(2,3) by (auto simp: distinct_list_update dest!: set_update_subset_insert[THEN subsetD])
  have tl: "distinct (tl (messages c))" "\<forall>k\<in>set (tl (messages c)). k < uuid c"
    using d b by (cases "messages c"; simp)+
  show ?thesis
    using d b assms(2,3) upd tl
    by (auto simp: addMessage_def admit_def Let_def stateOf_def updaters wellFormed_def
        list_all_iff split: moderationReply.splits)
qed

lemma add_new_wellFormed:
  assumes "wellFormed c"
  shows "wellFormed (stateOf (addMessage (snd (newMessage r body mdl c)) (uuid c) reply))"
proof (rule addMessage_wellFormed)
  show "wellFormed (snd (newMessage r body mdl c))"
    using assms by (auto simp: wellFormed_def newMessage_def list_all_iff less_Suc_eq)
  show "uuid c \<notin> set (messages (snd (newMessage r body mdl c)))"
    using wellFormed_fresh[OF assms] by (simp add: newMessage_def)
  show "uuid c < uuid (snd (newMessage r body mdl c))" by (simp add: newMessage_def)
qed

lemma addSystemMessage_wellFormed:
  "wellFormed c \<Longrightarrow> wellFormed (stateOf (addSystemMessage c body reply))"
  using add_new_wellFormed[of c System body] by (simp add: addSystemMessage_def newMessage_def)

lemma addUserMessage_wellFormed:
  "wellFormed c \<Longrightarrow> wellFormed (stateOf (addUserMessage c body reply))"
  using add_new_wellFormed[of c User body] by (simp add: addUserMessage_def newMessage_def)

lemma addAssistantMessage_wellFormed:
  "wellFormed c \<Longrightarrow> wellFormed (stateOf (addAssistantMessage c body reply))"
  using add_new_wellFormed[of c Assistant body]
  by (simp add: addAssistantMessage_def newMessage_def)

lemma removeMessage_wellFormed: "wellFormed c \<Longrightarrow> wellFormed (removeMessage c m)"
  by (auto simp: removeMessage_def notifyMessageRemoved_def wellFormed_def list_all_iff)

lemma foldl_removeMessage_wellFormed:
  "wellFormed c \<Longrightarrow> wellFormed (foldl removeMessage c ms)"
  by (induction ms arbitrary: c) (simp_all add: removeMessage_wellFormed)

lemma clearMessages_wellFormed: "wellFormed c \<Longrightarrow> wellFormed (clearMessages c reply)"
  using addSystemMessage_wellFormed[of "c\<lparr>messages := []\<rparr>"]
  by (simp add: clearMessages_def wellFormed_def)

lemma setContext_wellFormed: "wellFormed c \<Longrightarrow> wellFormed (setContext c body reply)"
  by (simp add: setContext_def addSystemMessage_wellFormed)

lemma getAssistantResponse_wellFormed:
  assumes "wellFormed c"
  shows "wellFormed (stateOf (getAssistantResponse E c so sv reply))"
proof -
  define c1 where "c1 = stateOf (getChatCompletionResponse E c so sv)"
  have e: "messages c1 = messages c" "uuid c1 = Suc (uuid c)"
    using getChatCompletionResponse_effect[of E c so sv c1] by (simp_all add: c1_def)
  then have w1: "wellFormed c1" using assms by (simp add: wellFormed_same)
  show ?thesis
  proof (cases "getChatCompletionResponse E c so sv")
    case (Return a d)
    then have a: "a = uuid c" by (rule getChatCompletionResponse_Return)
    have d: "d = c1" using Return by (simp add: c1_def stateOf_def)
    have "wellFormed (stateOf (addMessage c1 (uuid c) reply))"
      using w1 wellFormed_fresh[OF assms] e by (intro addMessage_wellFormed) simp_all
    then show ?thesis using Return a d by (simp add: getAssistantResponse_def)
  next
    case (Throw e' d)
    then have "d = c1" by (simp add: c1_def stateOf_def)
    then show ?thesis using Throw w1 by (simp add: getAssistantResponse_def stateOf_def)
  qed
qed

lemma getChatCompletionResponse_wellFormed:
  assumes "wellFormed c"
  shows "wellFormed (stateOf (getChatCompletionResponse E c so sv))"
  using getChatCompletionResponse_effect[of E c so sv, OF refl] assms
  by (simp add: wellFormed_same)

lemma prompt_wellFormed:
  assumes "wellFormed c"
  shows "wellFormed (stateOf (prompt E c body so userReply sv assistantReply))"
proof (cases "addUserMessage c body userReply")
  case (Return u c1)
  then have w1: "wellFormed c1"
    using addUserMessage_wellFormed[OF assms, of body userReply] by (simp add: stateOf_def)
  show ?thesis
  proof (cases "getAssistantResponse E c1 so sv assistantReply")
    case r: (Return a c2)
    then show ?thesis
      using Return getAssistantResponse_wellFormed[OF w1, of E so sv assistantReply]
      by (simp add: prompt_def stateOf_def)
  next
    case t: (Throw e c2)
    then have "wellFormed c2"
      using getAssistantResponse_wellFormed[OF w1, of E so sv assistantReply]
      by (simp add: stateOf_def)
    then show ?thesis using Return t by (simp add: prompt_def stateOf_def removeMessage_wellFormed)
  qed
next
  case (Throw e c1)
  then show ?thesis
    using addUserMessage_wellFormed[OF assms, of body userReply]
    by (simp add: prompt_def stateOf_def)
qed

lemma reprompt_wellFormed:
  assumes "wellFormed c"
  shows "wellFormed (stateOf (reprompt E c m newPrompt so sv reply))"
proof (cases "findIndex (\<lambda>k. k = m) (messages c)")
  case None
  then show ?thesis using assms by (simp add: reprompt_def stateOf_def)
next
  case (Some i)
  show ?thesis
  proof (cases "previousUserMessageIndex c i")
    case None
    then show ?thesis using Some assms by (simp add: reprompt_def stateOf_def)
  next
    case p: (Some p)
    define c1 where "c1 = (case newPrompt of None \<Rightarrow> c
       | Some body \<Rightarrow> if body \<noteq> [] then setContent c (messages c ! p) body else c)"
    define c2 where "c2 = foldl removeMessage c1 (drop (p + 1) (messages c1))"
    have "wellFormed c1"
      using assms by (simp add: c1_def wellFormed_def setContent_def split: option.splits)
    then have "wellFormed c2" unfolding c2_def by (rule foldl_removeMessage_wellFormed)
    then have 3: "wellFormed (stateOf (getAssistantResponse E c2 so sv reply))"
      by (rule getAssistantResponse_wellFormed)
    have r: "reprompt E c m newPrompt so sv reply =
      (case getAssistantResponse E c2 so sv reply of
         Return a c3 \<Rightarrow> Return a c3
       | Throw e c3 \<Rightarrow> Throw e (removeMessage c3 (messages c ! p)))"
      using Some p by (simp add: reprompt_def c1_def c2_def Let_def)
    show ?thesis
      using r 3 by (cases "getAssistantResponse E c2 so sv reply")
        (simp_all add: stateOf_def removeMessage_wellFormed)
  qed
qed

lemma setConfig_wellFormed:
  assumes "wellFormed c"
  shows "wellFormed (stateOf (setConfig E c params merge reply))"
proof -
  have "wellFormed (c\<lparr>config := cfg\<rparr>)" for cfg using assms by (simp add: wellFormed_def)
  then show ?thesis using assms
    by (auto simp: setConfig_def stateOf_def Let_def setContext_wellFormed
        split: sum.splits option.splits)
qed

lemma streamStep_wellFormed: "wellFormed c \<Longrightarrow> wellFormed (streamStep E c m)"
  by (auto simp: streamStep_def emitStreamingStop_def stopSubscriber_def Let_def wellFormed_def
      split: option.splits list.splits)

lemma exec_wellFormed:
  assumes "wellFormed c"
  shows "wellFormed (snd (exec E x c))"
  using assms
  by (cases x)
    (simp_all add: raised_def addUserMessage_wellFormed addAssistantMessage_wellFormed
      clearMessages_wellFormed removeMessage_wellFormed getChatCompletionResponse_wellFormed
      prompt_wellFormed reprompt_wellFormed setContext_wellFormed setConfig_wellFormed
      streamStep_wellFormed,
     simp_all add: wellFormed_def onMessageAdded_def offMessageAdded_def
      onMessageRemoved_def offMessageRemoved_def)

lemma run_wellFormed: "wellFormed c \<Longrightarrow> wellFormed (run E xs c)"
  by (induction xs arbitrary: c) (simp_all add: exec_wellFormed)

text \<open>Every conversation that the public operations can reach has unique ids.\<close>

lemma reachable_wellFormed:
  "newConversation E params reply = Inr c \<Longrightarrow> wellFormed (run E xs c)"
  using newConversation_wellFormed run_wellFormed by blast

lemma systemOnlyFirst_cong:
  assumes "systemOnlyFirst c" and "messages c' = messages c"
    and "\<forall>k\<in>set (messages c). role (objects c' k) = role (objects c k)"
  shows "systemOnlyFirst c'"
proof -
  have "set (tl (messages c)) \<subseteq> set (messages c)" by (cases "messages c") auto
  then show ?thesis using assms by (auto simp: systemOnlyFirst_def list_all_iff)
qed

lemma set_tl_filter: "set (tl (filter P xs)) \<subseteq> set (tl xs)"
proof (cases xs)
  case Nil
  then show ?thesis by simp
next
  case (Cons x ys)
  have "set (tl (filter P ys)) \<subseteq> set ys" by (cases "filter P ys") (auto dest: filter_eq_ConsD)
  then show ?thesis using Cons by auto
qed

lemma removeMessage_systemOnlyFirst:
  "systemOnlyFirst c \<Longrightarrow> systemOnlyFirst (removeMessage c m)"
  using set_tl_filter[of "\<lambda>k. k \<noteq> m" "messages c"]
  by (auto simp: removeMessage_def notifyMessageRemoved_def systemOnlyFirst_def list_all_iff)

lemma foldl_removeMessage_systemOnlyFirst:
  "systemOnlyFirst c \<Longrightarrow> systemOnlyFirst (foldl removeMessage c ms)"
  by (induction ms arbitrary: c) (simp_all add: removeMessage_systemOnlyFirst)

lemma tl_update_first: "tl (xs[0 := m]) = tl xs"
  by (cases xs) simp_all

lemma list_all_tl: "list_all P xs \<Longrightarrow> list_all P (tl xs)"
  by (cases xs) simp_all

lemma list_all_tl_snoc: "list_all P (tl xs) \<Longrightarrow> P m \<Longrightarrow> list_all P (tl (xs @ [m]))"
  by (cases xs) simp_all

lemma systemOnlyFirst_update:
  "systemOnlyFirst d \<Longrightarrow> systemOnlyFirst (d\<lparr>messages := (messages d)[0 := m]\<rparr>)"
  by (simp add: systemOnlyFirst_def tl_update_first)

lemma systemOnlyFirst_Cons:
  assumes "systemOnlyFirst d" and "\<not> firstIsSystem d"
  shows "systemOnlyFirst (d\<lparr>messages := m # messages d\<rparr>)"
proof (cases "messages d")
  case Nil
  then show ?thesis by (simp add: systemOnlyFirst_def)
next
  case (Cons a ms)
  then have "role (objects d a) \<noteq> System" "list_all (\<lambda>k. role (objects d k) \<noteq> System) ms"
    using assms by (simp_all add: firstIsSystem_def systemOnlyFirst_def)
  then show ?thesis using Cons by (simp add: systemOnlyFirst_def)
qed

lemma systemOnlyFirst_tl:
  "systemOnlyFirst d \<Longrightarrow> systemOnlyFirst (d\<lparr>messages := tl (messages d)\<rparr>)"
  by (simp add: systemOnlyFirst_def list_all_tl)

lemma systemOnlyFirst_snoc:
  "systemOnlyFirst d \<Longrightarrow> role (objects d m) \<noteq> System \<Longrightarrow>
   systemOnlyFirst (d\<lparr>messages := messages d @ [m]\<rparr>)"
  by (simp add: systemOnlyFirst_def list_all_tl_snoc)

lemma systemOnlyFirst_config: "systemOnlyFirst (d\<lparr>config := x\<rparr>) = systemOnlyFirst d"
  by (simp add: systemOnlyFirst_def)

lemma systemOnlyFirst_notified: "systemOnlyFirst (d\<lparr>notified := x\<rparr>) = systemOnlyFirst d"
  by (simp add: systemOnlyFirst_def)

lemma firstIsSystem_config: "firstIsSystem (d\<lparr>config := x\<rparr>) = firstIsSystem d"
  by (simp add: firstIsSystem_def split: list.splits)

lemma admit_systemOnlyFirst:
  assumes "systemOnlyFirst d"
  shows "systemOnlyFirst (stateOf (admit d m))"
proof (cases "role (objects d m) = System")
  case True
  define d1 where "d1 = d\<lparr>config := (config d)\<lparr>configContext := content (objects d m)\<rparr>\<rparr>"
  define d2 where "d2 =
    (if content (objects d1 m) \<noteq> [] then
       (if firstIsSystem d1 then d1\<lparr>messages := (messages d1)[0 := m]\<rparr>
        else d1\<lparr>messages := m # messages d1\<rparr>)
     else if firstIsSystem d1 then d1\<lparr>messages := tl (messages d1)\<rparr>
     else d1)"
  have s: "systemOnlyFirst d1" using assms unfolding d1_def by (simp only: systemOnlyFirst_config)
  have "systemOnlyFirst d2"
  proof (cases "content (objects d1 m) \<noteq> []")
    case c: True
    show ?thesis
    proof (cases "firstIsSystem d1")
      case True
      then have "d2 = d1\<lparr>messages := (messages d1)[0 := m]\<rparr>" using c by (simp add: d2_def)
      then show ?thesis using systemOnlyFirst_update[OF s] by (simp only:)
    next
      case False
      then have "d2 = d1\<lparr>messages := m # messages d1\<rparr>"
        using c by (simp add: d2_def)
      then show ?thesis using systemOnlyFirst_Cons[OF s False] by (simp only:)
    qed
  next
    case c: False
    show ?thesis
    proof (cases "firstIsSystem d1")
      case True
      then have "d2 = d1\<lparr>messages := tl (messages d1)\<rparr>"
        using c by (simp add: d2_def)
      then show ?thesis using systemOnlyFirst_tl[OF s] by (simp only:)
    next
      case False
      then have "d2 = d1" using c by (simp add: d2_def)
      then show ?thesis using s by (simp only:)
    qed
  qed
  moreover have "admit d m = Return m (notifyMessageAdded d2 m)"
    unfolding d2_def d1_def using True by (simp add: admit_def Let_def)
  ultimately show ?thesis
    by (simp add: stateOf_def notifyMessageAdded_def systemOnlyFirst_notified)
next
  case False
  have "systemOnlyFirst (d\<lparr>messages := messages d @ [m]\<rparr>)"
    using assms False by (rule systemOnlyFirst_snoc)
  then show ?thesis
    using False assms
    by (simp add: admit_def stateOf_def notifyMessageAdded_def systemOnlyFirst_notified)
qed

lemma addMessage_Return_admit:
  "addMessage c m reply = Return a c' \<Longrightarrow>
   admit (setContent c m (trim (content (objects c m)))) m = Return a c'"
  by (auto simp: addMessage_def Let_def split: if_splits moderationReply.splits)

lemma setContent_systemOnlyFirst:
  assumes "systemOnlyFirst c"
  shows "systemOnlyFirst (setContent c m body)"
  using assms
proof (rule systemOnlyFirst_cong)
  show "messages (setContent c m body) = messages c" by (simp add: setContent_def)
  show "\<forall>k\<in>set (messages c). role (objects (setContent c m body) k) = role (objects c k)"
    by (simp add: setContent_def)
qed

lemma addMessage_systemOnlyFirst:
  assumes "systemOnlyFirst c"
  shows "systemOnlyFirst (stateOf (addMessage c m reply))"
proof -
  define c1 where "c1 = setContent c m (trim (content (objects c m)))"
  have s1: "systemOnlyFirst c1" unfolding c1_def using assms by (rule setContent_systemOnlyFirst)
  then have adm: "systemOnlyFirst (stateOf (admit c1 m))" by (rule admit_systemOnlyFirst)
  show ?thesis
  proof (cases "addMessage c m reply")
    case (Return a c')
    then have "admit c1 m = Return a c'" unfolding c1_def by (rule addMessage_Return_admit)
    then have "stateOf (admit c1 m) = c'" by (simp add: stateOf_def)
    then show ?thesis using adm Return by (simp add: stateOf_def)
  next
    case (Throw e c')
    then have "c' = c1" unfolding c1_def by (rule addMessage_Throw)
    then show ?thesis using s1 Throw by (simp add: stateOf_def)
  qed
qed

lemma add_new_systemOnlyFirst:
  assumes "wellFormed c" and "systemOnlyFirst c"
  shows "systemOnlyFirst (stateOf (addMessage (snd (newMessage r body mdl c)) (uuid c) reply))"
proof (rule addMessage_systemOnlyFirst)
  have f: "\<forall>k\<in>set (messages c). k \<noteq> uuid c" using wellFormed_fresh[OF assms(1)] by blast
  show "systemOnlyFirst (snd (newMessage r body mdl c))"
    using assms(2)
  proof (rule systemOnlyFirst_cong)
    show "messages (snd (newMessage r body mdl c)) = messages c" by (simp add: newMessage_def)
    show "\<forall>k\<in>set (messages c).
       role (objects (snd (newMessage r body mdl c)) k) = role (objects c k)"
      using f by (simp add: newMessage_def)
  qed
qed

lemma addSystemMessage_systemOnlyFirst:
  "wellFormed c \<Longrightarrow> systemOnlyFirst c \<Longrightarrow>
   systemOnlyFirst (stateOf (addSystemMessage c body reply))"
  using add_new_systemOnlyFirst[of c System body] by (simp add: addSystemMessage_def newMessage_def)

lemma addUserMessage_systemOnlyFirst:
  "wellFormed c \<Longrightarrow> systemOnlyFirst c \<Longrightarrow>
   systemOnlyFirst (stateOf (addUserMessage c body reply))"
  using add_new_systemOnlyFirst[of c User body] by (simp add: addUserMessage_def newMessage_def)

lemma addAssistantMessage_systemOnlyFirst:
  "wellFormed c \<Longrightarrow> systemOnlyFirst c \<Longrightarrow>
   systemOnlyFirst (stateOf (addAssistantMessage c body reply))"
  using add_new_systemOnlyFirst[of c Assistant body]
  by (simp add: addAssistantMessage_def newMessage_def)

lemma setContext_systemOnlyFirst:
  "wellFormed c \<Longrightarrow> systemOnlyFirst c \<Longrightarrow> systemOnlyFirst (setContext c body reply)"
  by (simp add: setContext_def addSystemMessage_systemOnlyFirst)

lemma clearMessages_systemOnlyFirst: "wellFormed c \<Longrightarrow> systemOnlyFirst (clearMessages c reply)"
proof -
  assume "wellFormed c"
  then have "wellFormed (c\<lparr>messages := []\<rparr>)" by (simp add: wellFormed_def)
  moreover have "systemOnlyFirst (c\<lparr>messages := []\<rparr>)" by (simp add: systemOnlyFirst_def)
  ultimately show ?thesis
    using addSystemMessage_systemOnlyFirst[of "c\<lparr>messages := []\<rparr>"]
    by (simp add: clearMessages_def)
qed

lemma getChatCompletionResponse_systemOnlyFirst:
  assumes "wellFormed c" and "systemOnlyFirst c"
  shows "systemOnlyFirst (stateOf (getChatCompletionResponse E c so sv))"
  using assms(2)
proof (rule systemOnlyFirst_cong)
  define c1 where "c1 = stateOf (getChatCompletionResponse E c so sv)"
  have e: "messages c1 = messages c" "\<forall>k. k \<noteq> uuid c \<longrightarrow> objects c1 k = objects c k"
    using getChatCompletionResponse_effect[of E c so sv c1] by (simp_all add: c1_def)
  show "messages (stateOf (getChatCompletionResponse E c so sv)) = messages c"
    using e(1) by (simp add: c1_def)
  have "\<forall>k\<in>set (messages c). k \<noteq> uuid c" using wellFormed_fresh[OF assms(1)] by blast
  then have "\<forall>k\<in>set (messages c). objects c1 k = objects c k" using e(2) by blast
  then show "\<forall>k\<in>set (messages c).
     role (objects (stateOf (getChatCompletionResponse E c so sv)) k) = role (objects c k)"
    by (simp add: c1_def)
qed

lemma getAssistantResponse_systemOnlyFirst:
  assumes "wellFormed c" and "systemOnlyFirst c"
  shows "systemOnlyFirst (stateOf (getAssistantResponse E c so sv reply))"
proof (cases "getChatCompletionResponse E c so sv")
  case (Return a c1)
  then have "systemOnlyFirst c1"
    using getChatCompletionResponse_systemOnlyFirst[OF assms, of E so sv] by (simp add: stateOf_def)
  then have "systemOnlyFirst (stateOf (addMessage c1 a reply))" by (rule addMessage_systemOnlyFirst)
  then show ?thesis using Return by (simp add: getAssistantResponse_def)
next
  case (Throw e c1)
  then show ?thesis
    using getChatCompletionResponse_systemOnlyFirst[OF assms, of E so sv]
    by (simp add: getAssistantResponse_def stateOf_def)
qed

lemma prompt_systemOnlyFirst:
  assumes "wellFormed c" and "systemOnlyFirst c"
  shows "systemOnlyFirst (stateOf (prompt E c body so userReply sv assistantReply))"
proof (cases "addUserMessage c body userReply")
  case (Return u c1)
  then have 1: "wellFormed c1" "systemOnlyFirst c1"
    using addUserMessage_wellFormed[OF assms(1), of body userReply]
      addUserMessage_systemOnlyFirst[OF assms, of body userReply] by (simp_all add: stateOf_def)
  note g = getAssistantResponse_systemOnlyFirst[OF 1, of E so sv assistantReply]
  show ?thesis
  proof (cases "getAssistantResponse E c1 so sv assistantReply")
    case r: (Return a c2)
    then show ?thesis using Return g by (simp add: prompt_def stateOf_def)
  next
    case t: (Throw e c2)
    then have "systemOnlyFirst c2" using g by (simp add: stateOf_def)
    then have "systemOnlyFirst (removeMessage c2 u)" by (rule removeMessage_systemOnlyFirst)
    then show ?thesis using Return t by (simp add: prompt_def stateOf_def)
  qed
next
  case (Throw e c1)
  then show ?thesis
    using addUserMessage_systemOnlyFirst[OF assms, of body userReply]
    by (simp add: prompt_def stateOf_def)
qed

lemma reprompt_systemOnlyFirst:
  assumes "wellFormed c" and "systemOnlyFirst c"
  shows "systemOnlyFirst (stateOf (reprompt E c m newPrompt so sv reply))"
proof (cases "findIndex (\<lambda>k. k = m) (messages c)")
  case None
  then show ?thesis using assms by (simp add: reprompt_def stateOf_def)
next
  case (Some i)
  show ?thesis
  proof (cases "previousUserMessageIndex c i")
    case None
    then show ?thesis using Some assms by (simp add: reprompt_def stateOf_def)
  next
    case p: (Some p)
    define c1 where "c1 = (case newPrompt of None \<Rightarrow> c
       | Some body \<Rightarrow> if body \<noteq> [] then setContent c (messages c ! p) body else c)"
    define c2 where "c2 = foldl removeMessage c1 (drop (p + 1) (messages c1))"
    have w1: "wellFormed c1"
      using assms(1) by (simp add: c1_def wellFormed_def setContent_def split: option.splits)
    have s1: "systemOnlyFirst c1"
      using assms(2) by (simp add: c1_def setContent_systemOnlyFirst split: option.splits)
    have w2: "wellFormed c2" unfolding c2_def using w1 by (rule foldl_removeMessage_wellFormed)
    have s2: "systemOnlyFirst c2"
      unfolding c2_def using s1 by (rule foldl_removeMessage_systemOnlyFirst)
    note g = getAssistantResponse_systemOnlyFirst[OF w2 s2, of E so sv reply]
    have r: "reprompt E c m newPrompt so sv reply =
      (case getAssistantResponse E c2 so sv reply of
         Return a c3 \<Rightarrow> Return a c3
       | Throw e c3 \<Rightarrow> Throw e (removeMessage c3 (messages c ! p)))"
      using Some p by (simp add: reprompt_def c1_def c2_def Let_def)
    show ?thesis
    proof (cases "getAssistantResponse E c2 so sv reply")
      case (Return a c3)
      then show ?thesis using r g by (simp add: stateOf_def)
    next
      case (Throw e c3)
      then have "systemOnlyFirst c3" using g by (simp add: stateOf_def)
      then have "systemOnlyFirst (removeMessage c3 (messages c ! p))"
        by (rule removeMessage_systemOnlyFirst)
      then show ?thesis using r Throw by (simp add: stateOf_def)
    qed
  qed
qed

lemma setConfig_systemOnlyFirst:
  assumes "wellFormed c" and "systemOnlyFirst c"
  shows "systemOnlyFirst (stateOf (setConfig E c params merge reply))"
proof (cases "newConversationConfig E
    (if merge then mergeParameters (getConfig E c) params else params)")
  case (Inl e)
  then show ?thesis using assms(2) by (simp add: setConfig_def stateOf_def Let_def)
next
  case (Inr cfg)
  have w: "wellFormed (c\<lparr>config := cfg\<rparr>)" using assms(1) by (simp add: wellFormed_def)
  have s: "systemOnlyFirst (c\<lparr>config := cfg\<rparr>)"
    using assms(2) by (simp only: systemOnlyFirst_config)
  have "systemOnlyFirst (setContext (c\<lparr>config := cfg\<rparr>) body reply)" for body
    using w s by (rule setContext_systemOnlyFirst)
  then show ?thesis
    using Inr s by (simp add: setConfig_def stateOf_def Let_def split: option.splits)
qed

lemma streamStep_systemOnlyFirst:
  assumes "systemOnlyFirst c"
  shows "systemOnlyFirst (streamStep E c m)"
  using assms
proof (rule systemOnlyFirst_cong)
  show "messages (streamStep E c m) = messages c"
    by (simp add: streamStep_def emitStreamingStop_def stopSubscriber_def Let_def
        split: option.splits list.splits)
  show "\<forall>k\<in>set (messages c). role (objects (streamStep E c m) k) = role (objects c k)"
    by (simp add: streamStep_def emitStreamingStop_def stopSubscriber_def Let_def
        split: option.splits list.splits)
qed

lemma listeners_systemOnlyFirst:
  "systemOnlyFirst (onMessageAdded c l) = systemOnlyFirst c"
  "systemOnlyFirst (offMessageAdded c l) = systemOnlyFirst c"
  "systemOnlyFirst (onMessageRemoved c l) = systemOnlyFirst c"
  "systemOnlyFirst (offMessageRemoved c l) = systemOnlyFirst c"
  by (simp_all add: systemOnlyFirst_def onMessageAdded_def offMessageAdded_def
      onMessageRemoved_def offMessageRemoved_def)

lemma exec_systemOnlyFirst:
  assumes "wellFormed c" and "systemOnlyFirst c"
  shows "systemOnlyFirst (snd (exec E x c))"
  using assms
  by (cases x)
    (simp_all add: raised_def addUserMessage_systemOnlyFirst addAssistantMessage_systemOnlyFirst
      clearMessages_systemOnlyFirst removeMessage_systemOnlyFirst
      getChatCompletionResponse_systemOnlyFirst prompt_systemOnlyFirst
      reprompt_systemOnlyFirst setContext_systemOnlyFirst setConfig_systemOnlyFirst
      streamStep_systemOnlyFirst listeners_systemOnlyFirst)

lemma run_systemOnlyFirst:
  "wellFormed c \<Longrightarrow> systemOnlyFirst c \<Longrightarrow> systemOnlyFirst (run E xs c)"
  by (induction xs arbitrary: c) (simp_all add: exec_wellFormed exec_systemOnlyFirst)

text \<open>
  In every conversation that the public operations can reach, no message after the
  first is a system message.
\<close>

lemma reachable_systemOnlyFirst:
  assumes "newConversation E params reply = Inr c"
  shows "systemOnlyFirst (run E xs c)"
proof -
  obtain cfg where c: "c = clearMessages
       \<lparr>config = cfg, messages = [], addMessageListeners = [],
        removeMessageListeners = [], cumulativeSize = 0, cumulativeCost = 0,
        objects = (\<lambda>_. blankMessage), uuid = 0, notified = []\<rparr> reply"
    using assms by (auto simp: newConversation_def split: sum.splits)
  have "wellFormed \<lparr>config = cfg, messages = [], addMessageListeners = [],
        removeMessageListeners = [], cumulativeSize = 0, cumulativeCost = 0,
        objects = (\<lambda>_. blankMessage), uuid = 0, notified = []\<rparr>"
    by (simp add: wellFormed_def)
  then have "systemOnlyFirst c" unfolding c by (rule clearMessages_systemOnlyFirst)
  moreover have "wellFormed c" using newConversation_wellFormed[OF assms] by simp
  ultimately show ?thesis by (rule run_systemOnlyFirst[rotated])
qed

section \<open>The claims\<close>



text \<open>
  Claim C6, as the code has it. \<open>removeMessage\<close> with an id that is not in the
  history returns without an error and changes nothing (its guard is a plain
  \<open>return\<close>); \<open>reprompt\<close> with such an id fails with MessageNotFound and changes
  nothing.
\<close>

theorem unknown_id_outcomes:
  assumes "m \<notin> set (messages c)"
  shows "exec E (RemoveMessage m) c = (None, c) \<and>
    exec E (Reprompt m newPrompt so sv reply) c = (Some MessageNotFound, c)"
proof -
  have "findIndex (\<lambda>k. k = m) (messages c) = None"
    using assms by (simp add: findIndex_None)
  then show ?thesis using assms
    by (simp add: removeMessage_def reprompt_def raised_def errorOf_def stateOf_def)
qed

theorem unknown_id_outcomes_witness:
  "7 \<notin> set (messages (exampleConversation noParameters)) \<and>
   exec exampleEnv (RemoveMessage 7) (exampleConversation noParameters)
     = (None, exampleConversation noParameters) \<and>
   exec exampleEnv (Reprompt 7 None None noService (Flags [])) (exampleConversation noParameters)
     = (Some MessageNotFound, exampleConversation noParameters)"
proof -
  have "7 \<notin> set (messages (exampleConversation noParameters))" by (simp add: evaluation)
  then show ?thesis
    using unknown_id_outcomes[of 7 "exampleConversation noParameters" exampleEnv None None noService "Flags []"]
    by simp
qed

text \<open>
  Against the claim as stated: on a new conversation, \<open>removeMessage\<close> with the
  unknown id 7 raises no error.
\<close>

theorem removeMessage_unknown_id_returns:
  "7 \<notin> set (messages (exampleConversation noParameters)) \<and>
   fst (exec exampleEnv (RemoveMessage 7) (exampleConversation noParameters)) = None \<and>
   fst (exec exampleEnv (RemoveMessage 7) (exampleConversation noParameters))
     \<noteq> Some MessageNotFound"
  by (simp add: evaluation)




text \<open>
  Claim C7. Whatever sequence of public calls and stream arrivals runs on a conversation,
  failed calls and removals included, \<open>getCumulativeSize()\<close> and
  \<open>getCumulativeCost()\<close> are afterwards at least what they were before; hence
  they never decrease from one call to the next. The price of a message is taken to be
  non-negative, and the cost is a real number.
\<close>

theorem cumulative_counters_never_decrease:
  assumes "priceNonNegative E"
  shows "getCumulativeSize c \<le> getCumulativeSize (run E xs c) \<and>
    getCumulativeCost c \<le> getCumulativeCost (run E xs c)"
proof -
  have "countersGrow c (run E xs c)"
  proof (induction xs arbitrary: c)
    case Nil
    then show ?case by (simp add: countersGrow_refl)
  next
    case (Cons x xs)
    show ?case
      using countersGrow_trans[OF exec_grows[OF assms, of c x] Cons.IH] by simp
  qed
  then show ?thesis
    by (simp add: countersGrow_def getCumulativeSize_def getCumulativeCost_def)
qed

text \<open>
  A dry-run conversation: a prompt, the removal of its user message, and a second prompt.
\<close>

theorem cumulative_counters_never_decrease_witness:
  "priceNonNegative exampleEnv \<and>
   getCumulativeSize (run exampleEnv
     [Prompt ''Hello'' None (Flags []) noService (Flags []), RemoveMessage 1,
      Prompt ''Hello'' None (Flags []) noService (Flags [])] exampleDry) = 25 \<and>
   getCumulativeSize exampleDry \<le> getCumulativeSize (run exampleEnv
     [Prompt ''Hello'' None (Flags []) noService (Flags []), RemoveMessage 1,
      Prompt ''Hello'' None (Flags []) noService (Flags [])] exampleDry) \<and>
   getCumulativeCost exampleDry \<le> getCumulativeCost (run exampleEnv
     [Prompt ''Hello'' None (Flags []) noService (Flags []), RemoveMessage 1,
      Prompt ''Hello'' None (Flags []) noService (Flags [])] exampleDry)"
proof -
  have "getCumulativeSize (run exampleEnv
     [Prompt ''Hello'' None (Flags []) noService (Flags []), RemoveMessage 1,
      Prompt ''Hello'' None (Flags []) noService (Flags [])] exampleDry) = 25"
    by (simp add: exampleDry_def getCumulativeSize_def evaluation)
  then show ?thesis
    using priceNonNegative_example
      cumulative_counters_never_decrease[OF priceNonNegative_example, of exampleDry
        "[Prompt ''Hello'' None (Flags []) noService (Flags []), RemoveMessage 1,
      Prompt ''Hello'' None (Flags []) noService (Flags [])]"]
    by simp
qed








text \<open>
  Claim C9. In a dry run, \<open>prompt\<close> with a text that does not trim to the empty
  string (such as "Hello") returns an assistant message; once its content is final, that
  is, at once on the batched path and after its stream has been read to the end on the
  streamed path, the content is the content of the user message just submitted, and
  \<open>getCumulativeSize()\<close> is positive. The conversation has unique ids and does
  not end with a user message, the moderation lets both messages pass, the tokenizer
  gives the text a positive size, and the deltas of the dry-run stream make up the text.
\<close>

theorem dry_prompt_echoes:
  assumes "wellFormed c" and "dry (config c)" and "lastRole c \<noteq> Some User"
    and "moderationPasses (config c) userReply"
    and "moderationPasses (config c) assistantReply"
    and "trim body \<noteq> []"
    and "0 < getMessageSize E (trim body)"
    and "concat (createDryChatCompletion E (trim body)) = trim body"
  shows "\<exists>a c'. prompt E c body so userReply sv assistantReply = Return a c' \<and>
     messages c' = messages c @ [uuid c, a] \<and>
     role (objects c' (uuid c)) = User \<and> content (objects c' (uuid c)) = trim body \<and>
     role (objects c' a) = Assistant \<and>
     content (objects (finalized E c' a) a) = content (objects c' (uuid c)) \<and>
     0 < getCumulativeSize (finalized E c' a)"
proof -
  define u where "u = uuid c"
  define a where "a = Suc u"
  define c1 where "c1 = c\<lparr>objects := (objects c)(uuid c :=
            \<lparr>role = User, content = trim body, model = configModel (config c),
             source = None, stopSubscribed = False\<rparr>),
         uuid := Suc (uuid c),
         messages := messages c @ [uuid c],
         notified := notified c @ map (\<lambda>l. (l, MessageAdded (uuid c))) (addMessageListeners c)\<rparr>"
  have au: "addUserMessage c body userReply = Return u c1"
    unfolding u_def c1_def using assms(1,6,4,3) by (rule addUserMessage_admits)
  have c1: "dry (config c1)" "messages c1 = messages c @ [u]" "uuid c1 = a" "u \<noteq> uuid c1"
    "content (objects c1 u) = trim body" "role (objects c1 u) = User" "config c1 = config c"
    using assms(2) by (simp_all add: c1_def u_def a_def)
  obtain c2 where g: "getChatCompletionResponse E c1 so sv = Return a c2"
    and c2: "messages c2 = messages c1" "config c2 = config c1" "objects c2 u = objects c1 u"
      "role (objects c2 a) = Assistant"
    and alt: "(source (objects c2 a) = None \<and> content (objects c2 a) = trim body \<and>
      cumulativeSize c1 + getMessageSize E (trim body) \<le> cumulativeSize c2) \<or>
     (source (objects c2 a) = Some (createDryChatCompletion E (trim body)) \<and>
      content (objects c2 a) = [] \<and> stopSubscribed (objects c2 a))"
    using getChatCompletionResponse_dry[OF c1(1,2,4), of "trim body" E so sv] c1(3,5) by auto
  define c3 where "c3 = notifyMessageAdded
      ((setContent c2 a (trim (content (objects c2 a))))\<lparr>messages := messages c2 @ [a]\<rparr>) a"
  have "lastRole c2 = Some User"
    using lastRole_snoc[of c2 "messages c" u] c2(1,3) c1(2,6) by simp
  then have add: "addMessage c2 a assistantReply = Return a c3"
    unfolding c3_def using c2(2,4) c1(7) assms(5) by (intro addMessage_admits) simp_all
  have p: "prompt E c body so userReply sv assistantReply = Return a c3"
    using au g add by (simp add: prompt_def getAssistantResponse_def)
  have ua: "u \<noteq> a" by (simp add: a_def)
  have c3: "messages c3 = messages c @ [u, a]" "objects c3 u = objects c1 u"
    "role (objects c3 a) = Assistant" "content (objects c3 a) = trim (content (objects c2 a))"
    "source (objects c3 a) = source (objects c2 a)"
    "stopSubscribed (objects c3 a) = stopSubscribed (objects c2 a)"
    "cumulativeSize c3 = cumulativeSize c2"
    using c2 c1(2) ua by (simp_all add: c3_def updaters)
  have fin: "content (objects (finalized E c3 a) a) = trim body \<and>
     0 < cumulativeSize (finalized E c3 a)"
    using alt
  proof
    assume b: "source (objects c2 a) = None \<and> content (objects c2 a) = trim body \<and>
      cumulativeSize c1 + getMessageSize E (trim body) \<le> cumulativeSize c2"
    then have "finalized E c3 a = c3" using c3(5) by (simp add: finalized_def)
    then show ?thesis using b c3(4,7) assms(7) by (simp add: trim_trim)
  next
    assume st: "source (objects c2 a) = Some (createDryChatCompletion E (trim body)) \<and>
      content (objects c2 a) = [] \<and> stopSubscribed (objects c2 a)"
    let ?ds = "createDryChatCompletion E (trim body)"
    have s3: "source (objects c3 a) = Some ?ds" "stopSubscribed (objects c3 a)"
      "content (objects c3 a) = []"
      using st c3(4,5,6) by (simp_all add: trim_Nil)
    have f: "finalized E c3 a = streamSteps E c3 a (Suc (length ?ds))"
      using s3(1) by (simp add: finalized_def)
    have "content (objects (finalized E c3 a) a) = trim body"
      using streamSteps_content[OF s3(1), of E] s3(3) assms(8) f by simp
    moreover have "0 < cumulativeSize (finalized E c3 a)"
      using streamSteps_cumulativeSize[OF s3(1,2), of E] s3(3) assms(7,8) f by simp
    ultimately show ?thesis by simp
  qed
  show ?thesis
    using p c3 c1(5,6) fin by (auto simp: u_def getCumulativeSize_def)
qed


text \<open>\<open>prompt("Hello")\<close> on a new conversation with the configuration \<open>{dry: true}\<close>.\<close>

theorem dry_prompt_echoes_witness:
  "wellFormed exampleDry \<and> dry (config exampleDry) \<and> lastRole exampleDry = None \<and>
   moderationPasses (config exampleDry) (Flags []) \<and> trim ''Hello'' = ''Hello'' \<and>
   getMessageSize exampleEnv ''Hello'' = 5 \<and>
   concat (createDryChatCompletion exampleEnv ''Hello'') = ''Hello'' \<and>
   errorOf (prompt exampleEnv exampleDry ''Hello'' None (Flags []) noService (Flags []))
     = None \<and>
   content (objects (finalized exampleEnv (stateOf
     (prompt exampleEnv exampleDry ''Hello'' None (Flags []) noService (Flags []))) 2) 2)
     = ''Hello'' \<and>
   getCumulativeSize (finalized exampleEnv (stateOf
     (prompt exampleEnv exampleDry ''Hello'' None (Flags []) noService (Flags []))) 2) = 10"
proof -
  have h: "wellFormed exampleDry" "dry (config exampleDry)" "lastRole exampleDry \<noteq> Some User"
    "moderationPasses (config exampleDry) (Flags [])" "trim ''Hello'' \<noteq> []"
    "0 < getMessageSize exampleEnv (trim ''Hello'')"
    "concat (createDryChatCompletion exampleEnv (trim ''Hello'')) = trim ''Hello''"
    by (simp_all add: exampleDry_def moderationPasses_def evaluation)
  have e: "lastRole exampleDry = None" "trim ''Hello'' = ''Hello''"
    "getMessageSize exampleEnv ''Hello'' = 5"
    "concat (createDryChatCompletion exampleEnv ''Hello'') = ''Hello''"
    "errorOf (prompt exampleEnv exampleDry ''Hello'' None (Flags []) noService (Flags []))
     = None"
    "content (objects (finalized exampleEnv (stateOf
      (prompt exampleEnv exampleDry ''Hello'' None (Flags []) noService (Flags []))) 2) 2)
      = ''Hello''"
    "getCumulativeSize (finalized exampleEnv (stateOf
      (prompt exampleEnv exampleDry ''Hello'' None (Flags []) noService (Flags []))) 2) = 10"
    by (simp_all add: exampleDry_def getCumulativeSize_def evaluation)
  show ?thesis
    using h(1,2,4) e
      dry_prompt_echoes[OF h(1,2,3,4,4,5,6,7), of None noService]
    by simp
qed

text \<open>
  Claim C4, evaluated. A streamed dry-run \<open>prompt("Hello")\<close> on a new conversation:
  the history is the user message and the answer, five tokens each, and nothing else was
  counted before. When the stream has ended the cumulative size is 15: the subscriber
  reads \<open>getSize()\<close> when the stop event fires, and by then \<open>prompt\<close> has
  admitted the answer, so the answer is counted in \<open>getSize()\<close> and once more on
  its own. The size of the conversation before the answer plus the size of the answer
  is 10, which is what the batched path adds. The cumulative cost, at a thousandth per
  token, differs in the same way.
\<close>

theorem streamed_prompt_counts_answer_twice:
  "getCumulativeSize exampleDry = 0 \<and> getSize exampleEnv exampleDry = 0 \<and>
   messages (stateOf (prompt exampleEnv exampleDry ''Hello'' (Some True) (Flags []) noService
     (Flags []))) = [1, 2] \<and>
   messageSize exampleEnv (objects (finalized exampleEnv (stateOf
     (prompt exampleEnv exampleDry ''Hello'' (Some True) (Flags []) noService (Flags []))) 2) 1)
     = 5 \<and>
   messageSize exampleEnv (objects (finalized exampleEnv (stateOf
     (prompt exampleEnv exampleDry ''Hello'' (Some True) (Flags []) noService (Flags []))) 2) 2)
     = 5 \<and>
   getCumulativeSize (finalized exampleEnv (stateOf
     (prompt exampleEnv exampleDry ''Hello'' (Some True) (Flags []) noService (Flags []))) 2)
     = 15 \<and>
   getCumulativeSize (stateOf
     (prompt exampleEnv exampleDry ''Hello'' (Some False) (Flags []) noService (Flags [])))
     = 10 \<and>
   getCumulativeCost (finalized exampleEnv (stateOf
     (prompt exampleEnv exampleDry ''Hello'' (Some True) (Flags []) noService (Flags []))) 2)
     = 15 / 1000 \<and>
   getCumulativeCost (stateOf
     (prompt exampleEnv exampleDry ''Hello'' (Some False) (Flags []) noService (Flags [])))
     = 10 / 1000"
  by (simp add: exampleDry_def getCumulativeSize_def getCumulativeCost_def evaluation)

text \<open>
  Claim C3, evaluated. With the context "Be terse." and a user message in the history,
  \<open>removeMessage\<close> of the context message returns normally; afterwards the
  effective context is still "Be terse." but the first message is the user message, and
  \<open>getMessages()\<close>, which drops the first message whenever the context is not
  empty, no longer shows the user message.
\<close>

theorem removing_context_message_keeps_context:
  "messages exampleHi = [0, 1] \<and> role (objects exampleHi 0) = System \<and>
   role (objects exampleHi 1) = User \<and>
   fst (exec exampleEnv (RemoveMessage 0) exampleHi) = None \<and>
   configContext (config (snd (exec exampleEnv (RemoveMessage 0) exampleHi))) = ''Be terse.'' \<and>
   messages (snd (exec exampleEnv (RemoveMessage 0) exampleHi)) = [1] \<and>
   \<not> firstIsSystem (snd (exec exampleEnv (RemoveMessage 0) exampleHi)) \<and>
   getMessages (snd (exec exampleEnv (RemoveMessage 0) exampleHi)) False = []"
  by (simp add: exampleHi_def exampleTerse_def evaluation)

end
